theory Spec2Isabelle
  imports Main
begin

section \<open>Data model (internal/model)\<close>

text \<open>
  The three row types of the metadata store. Go's \<open>int64\<close> identifiers, sizes and
  counters are modelled as \<open>int\<close>: none of them is ever multiplied or shifted, and a
  counter that grows by one per synchronisation does not reach \<open>2^63\<close>.
  A \<open>time.Time\<close> is modelled as an \<open>int\<close> (a point on the time line); only its
  order matters to the code.
\<close>

record DBRepo =
  repo_ID :: int
  repo_Name :: string
  repo_URL :: string
  repo_Sync :: string
  repo_Tag :: string
  repo_LastSync :: int
  repo_CommitHash :: string
  repo_ZipFile :: string
  repo_Size :: int
  repo_CreatedAt :: int
  repo_UpdatedAt :: int

record DBVersion =
  ver_ID :: int
  ver_RepoID :: int
  ver_Tag :: string
  ver_CommitHash :: string
  ver_ZipFile :: string
  ver_Size :: int
  ver_CreatedAt :: int
  ver_Deleted :: int

record DBPackageListVersion =
  plv_ID :: int
  plv_Version :: int
  plv_UpdatedAt :: int

section \<open>The SQLite store (internal/store)\<close>

text \<open>
  The database is the content of its three tables, each a list of rows in insertion
  order, together with the \<open>AUTOINCREMENT\<close> counter of each table (the largest row id
  ever handed out). Every function below models one SQL statement of the store on the
  path where the statement succeeds; the \<open>err != nil\<close> branches of the Go code are
  taken by the callers, from the failure flags of their environment, and a failed
  statement leaves the database as it was.
\<close>

record db =
  repos :: "DBRepo list"
  versions :: "DBVersion list"
  package_list_versions :: "DBPackageListVersion list"
  seq_repos :: int
  seq_versions :: int
  seq_plv :: int

definition empty_db :: db where
  "empty_db = \<lparr>repos = [], versions = [], package_list_versions = [],
     seq_repos = 0, seq_versions = 0, seq_plv = 0\<rparr>"

text \<open>
  \<open>UpsertRepo\<close>: \<open>INSERT INTO repos (name, url, tag, last_sync, commit_hash, zip_file,
  size, updated_at) ... ON CONFLICT(name) DO UPDATE SET tag, last_sync, commit_hash,
  zip_file, size, updated_at ... RETURNING id\<close>. The Go struct receives the time of the
  call in \<open>UpdatedAt\<close> and the returned id in \<open>ID\<close>. The \<open>sync\<close> field of the struct is
  not among the inserted columns, and a new row gets \<open>created_at\<close> from the column
  default.
\<close>

definition UpsertRepo :: "int \<Rightarrow> DBRepo \<Rightarrow> db \<Rightarrow> db \<times> DBRepo" where
  "UpsertRepo now repo d =
     (case find (\<lambda>x. repo_Name x = repo_Name repo) (repos d) of
        Some old \<Rightarrow>
          (d\<lparr>repos := map (\<lambda>x. if repo_Name x = repo_Name repo
                                 then x\<lparr>repo_Tag := repo_Tag repo,
                                        repo_LastSync := repo_LastSync repo,
                                        repo_CommitHash := repo_CommitHash repo,
                                        repo_ZipFile := repo_ZipFile repo,
                                        repo_Size := repo_Size repo,
                                        repo_UpdatedAt := now\<rparr>
                                 else x) (repos d)\<rparr>,
           repo\<lparr>repo_UpdatedAt := now, repo_ID := repo_ID old\<rparr>)
      | None \<Rightarrow>
          (let i = seq_repos d + 1 in
           (d\<lparr>repos := repos d @
                 [repo\<lparr>repo_ID := i, repo_Sync := [], repo_CreatedAt := now,
                       repo_UpdatedAt := now\<rparr>],
              seq_repos := i\<rparr>,
            repo\<lparr>repo_UpdatedAt := now, repo_ID := i\<rparr>)))"

text \<open>
  \<open>AddVersion\<close>: \<open>INSERT INTO versions (repo_id, tag, commit_hash, zip_file, size,
  created_at) ... ON CONFLICT(repo_id, tag) DO UPDATE SET commit_hash, zip_file, size,
  created_at ... RETURNING id\<close>. A new row has \<open>deleted = 0\<close> (the column default); an
  updated row keeps its \<open>deleted\<close> flag.
\<close>

definition same_key :: "DBVersion \<Rightarrow> DBVersion \<Rightarrow> bool" where
  "same_key v x = (ver_RepoID x = ver_RepoID v \<and> ver_Tag x = ver_Tag v)"

definition AddVersion :: "DBVersion \<Rightarrow> db \<Rightarrow> db \<times> DBVersion" where
  "AddVersion version d =
     (case find (same_key version) (versions d) of
        Some old \<Rightarrow>
          (d\<lparr>versions := map (\<lambda>x. if same_key version x
                                    then x\<lparr>ver_CommitHash := ver_CommitHash version,
                                           ver_ZipFile := ver_ZipFile version,
                                           ver_Size := ver_Size version,
                                           ver_CreatedAt := ver_CreatedAt version\<rparr>
                                    else x) (versions d)\<rparr>,
           version\<lparr>ver_ID := ver_ID old\<rparr>)
      | None \<Rightarrow>
          (let i = seq_versions d + 1 in
           (d\<lparr>versions := versions d @ [version\<lparr>ver_ID := i, ver_Deleted := 0\<rparr>],
              seq_versions := i\<rparr>,
            version\<lparr>ver_ID := i\<rparr>)))"

text \<open>\<open>GetRepoByName\<close>: \<open>SELECT * FROM repos WHERE name = ?\<close>; no row is an error in Go,
  \<open>None\<close> here.\<close>

definition GetRepoByName :: "string \<Rightarrow> db \<Rightarrow> DBRepo option" where
  "GetRepoByName name d = find (\<lambda>x. repo_Name x = name) (repos d)"

text \<open>
  \<open>ORDER BY created_at DESC\<close>. SQL leaves the order of rows with equal \<open>created_at\<close>
  open; the model takes the stable order (insertion order among equals), which is what
  the specification names. No theorem below depends on how ties are broken unless it
  says so.
\<close>

definition by_created_desc :: "DBVersion list \<Rightarrow> DBVersion list" where
  "by_created_desc vs = sort_key (\<lambda>v. - ver_CreatedAt v) vs"

text \<open>\<open>GetVersionsByRepoID\<close>: \<open>SELECT * FROM versions WHERE repo_id = ? ORDER BY
  created_at DESC\<close>, with \<open>LIMIT limit\<close> when \<open>limit > 0\<close>.\<close>

definition GetVersionsByRepoID :: "int \<Rightarrow> int \<Rightarrow> db \<Rightarrow> DBVersion list" where
  "GetVersionsByRepoID repoID limit d =
     (let rows = by_created_desc (filter (\<lambda>v. ver_RepoID v = repoID) (versions d))
      in if limit > 0 then take (nat limit) rows else rows)"

text \<open>\<open>GetAllRepos\<close>: \<open>SELECT * FROM repos ORDER BY name\<close>. Names are unique, so the
  order is total; the model compares names as SQLite's BINARY collation does, byte by
  byte.\<close>

definition name_key :: "string \<Rightarrow> nat list" where
  "name_key s = map of_char s"

fun lex_le :: "nat list \<Rightarrow> nat list \<Rightarrow> bool" where
  "lex_le [] ys = True"
| "lex_le (x # xs) [] = False"
| "lex_le (x # xs) (y # ys) = (x < y \<or> (x = y \<and> lex_le xs ys))"

fun insert_by_name :: "DBRepo \<Rightarrow> DBRepo list \<Rightarrow> DBRepo list" where
  "insert_by_name r [] = [r]"
| "insert_by_name r (x # xs) =
     (if lex_le (name_key (repo_Name r)) (name_key (repo_Name x)) then r # x # xs
      else x # insert_by_name r xs)"

definition GetAllRepos :: "db \<Rightarrow> DBRepo list" where
  "GetAllRepos d = foldr insert_by_name (repos d) []"

text \<open>
  \<open>GetOlderThan3LatestUnDeletedVersions\<close>: the rows of \<open>SELECT * FROM versions WHERE
  repo_id = ? AND deleted = 0 ORDER BY created_at DESC\<close> after the first three, which
  the loop skips.
\<close>

definition undeleted_of :: "int \<Rightarrow> db \<Rightarrow> DBVersion list" where
  "undeleted_of repoID d =
     by_created_desc (filter (\<lambda>v. ver_RepoID v = repoID \<and> ver_Deleted v = 0) (versions d))"

definition GetOlderThan3LatestUnDeletedVersions :: "int \<Rightarrow> db \<Rightarrow> DBVersion list" where
  "GetOlderThan3LatestUnDeletedVersions repoID d = drop 3 (undeleted_of repoID d)"

text \<open>\<open>MarkVersionAsDeleted\<close>: \<open>UPDATE versions SET deleted = 1 WHERE id = ?\<close>.\<close>

definition MarkVersionAsDeleted :: "int \<Rightarrow> db \<Rightarrow> db" where
  "MarkVersionAsDeleted versionID d =
     d\<lparr>versions := map (\<lambda>x. if ver_ID x = versionID then x\<lparr>ver_Deleted := 1\<rparr> else x)
                        (versions d)\<rparr>"

text \<open>
  \<open>IncrementPackageListVersion\<close>: \<open>INSERT INTO package_list_versions (version,
  updated_at) SELECT COALESCE(MAX(version), 0) + 1, CURRENT_TIMESTAMP FROM
  package_list_versions\<close>. \<open>max_version\<close> is the \<open>COALESCE(MAX(version), 0)\<close> of the
  statement: the catalog version the table holds.
\<close>

definition max_version :: "db \<Rightarrow> int" where
  "max_version d = (case map plv_Version (package_list_versions d) of
                      [] \<Rightarrow> 0
                    | x # xs \<Rightarrow> fold max xs x)"

definition IncrementPackageListVersion :: "int \<Rightarrow> db \<Rightarrow> db" where
  "IncrementPackageListVersion now d =
     (let i = seq_plv d + 1 in
      d\<lparr>package_list_versions := package_list_versions d @
           [\<lparr>plv_ID = i, plv_Version = max_version d + 1, plv_UpdatedAt = now\<rparr>],
        seq_plv := i\<rparr>)"

text \<open>
  \<open>GetLatestPackageListVersion\<close>: \<open>SELECT * FROM package_list_versions ORDER BY id DESC
  LIMIT 1\<close>. With no row, the Go code fills the struct with version 1 and the current
  time, runs \<open>IncrementPackageListVersion\<close> and returns the struct (its \<open>ID\<close> stays 0);
  when that increment fails the call fails. \<open>select_err\<close> and \<open>incr_err\<close> are the two
  ways the database can refuse; \<open>now\<close> is Go's clock and \<open>db_now\<close> the database's.
\<close>

datatype error = GitErr | StatErr | ZipErr | SizeErr | DbErr | SliceBounds

fun latest_row :: "DBPackageListVersion list \<Rightarrow> DBPackageListVersion option" where
  "latest_row [] = None"
| "latest_row (x # xs) =
     (case latest_row xs of
        None \<Rightarrow> Some x
      | Some y \<Rightarrow> if plv_ID x > plv_ID y then Some x else Some y)"

definition GetLatestPackageListVersion ::
  "bool \<Rightarrow> bool \<Rightarrow> int \<Rightarrow> int \<Rightarrow> db \<Rightarrow> db \<times> (error + DBPackageListVersion)" where
  "GetLatestPackageListVersion select_err incr_err now db_now d =
     (if select_err then (d, Inl DbErr)
      else case latest_row (package_list_versions d) of
        Some row \<Rightarrow> (d, Inr row)
      | None \<Rightarrow>
          if incr_err then (d, Inl DbErr)
          else (IncrementPackageListVersion db_now d,
                Inr \<lparr>plv_ID = 0, plv_Version = 1, plv_UpdatedAt = now\<rparr>))"

text \<open>
  The operations of the store as a caller sees them: each call names the statement and
  says whether the database accepted it. A refused statement changes nothing.
\<close>

datatype store_call =
    CallUpsertRepo int DBRepo
  | CallAddVersion DBVersion
  | CallGetRepoByName string
  | CallGetVersionsByRepoID int int
  | CallGetAllRepos
  | CallGetOlderThan3 int
  | CallMarkVersionAsDeleted int
  | CallGetLatestPackageListVersion bool int int
  | CallIncrementPackageListVersion int

fun store_exec :: "store_call \<times> bool \<Rightarrow> db \<Rightarrow> db" where
  "store_exec (c, False) d = d"
| "store_exec (CallUpsertRepo now r, True) d = fst (UpsertRepo now r d)"
| "store_exec (CallAddVersion v, True) d = fst (AddVersion v d)"
| "store_exec (CallGetRepoByName n, True) d = d"
| "store_exec (CallGetVersionsByRepoID i l, True) d = d"
| "store_exec (CallGetAllRepos, True) d = d"
| "store_exec (CallGetOlderThan3 i, True) d = d"
| "store_exec (CallMarkVersionAsDeleted i, True) d = MarkVersionAsDeleted i d"
| "store_exec (CallGetLatestPackageListVersion incr_err now db_now, True) d =
     fst (GetLatestPackageListVersion False incr_err now db_now d)"
| "store_exec (CallIncrementPackageListVersion now, True) d = IncrementPackageListVersion now d"

definition store_run :: "(store_call \<times> bool) list \<Rightarrow> db \<Rightarrow> db" where
  "store_run cs d = fold store_exec cs d"

section \<open>Packaging (pkg/zip)\<close>

definition ExcludePaths :: "string list" where
  "ExcludePaths = [''.git'', ''.github'']"

text \<open>\<open>strings.HasPrefix(s, prefix)\<close>: \<open>len(s) >= len(prefix)\<close> and the first
  \<open>len(prefix)\<close> bytes of \<open>s\<close> are \<open>prefix\<close>.\<close>

definition HasPrefix :: "string \<Rightarrow> string \<Rightarrow> bool" where
  "HasPrefix s p = (length p \<le> length s \<and> take (length p) s = p)"

fun shouldExclude_loop :: "string list \<Rightarrow> string \<Rightarrow> bool" where
  "shouldExclude_loop [] path = False"
| "shouldExclude_loop (exclude # rest) path =
     (if HasPrefix path exclude then True else shouldExclude_loop rest path)"

definition shouldExclude :: "string \<Rightarrow> bool" where
  "shouldExclude path = shouldExclude_loop ExcludePaths path"

text \<open>
  The source tree as \<open>filepath.Walk\<close> presents it: one entry per visited path, in
  visiting order, with the path relative to the source directory (what
  \<open>filepath.Rel\<close> returns), whether \<open>info.IsDir()\<close> holds, the bytes of the file,
  and the step at which the operating system fails on this entry, if any: the error
  \<open>Walk\<close> hands to the callback, \<open>filepath.Rel\<close>, \<open>writer.Create\<close>, \<open>os.Open\<close>, or
  \<open>io.Copy\<close> after some bytes.
\<close>

datatype fault = NoFault | WalkErr | RelErr | CreateErr | OpenErr | CopyErr nat

record walk_entry =
  rel_path :: string
  is_dir :: bool
  content :: string
  fault :: fault

text \<open>An archive is the list of its members, name and bytes, in the order written.\<close>

type_synonym archive = "(string \<times> string) list"

type_synonym disk = "string \<rightharpoonup> archive"

text \<open>The callback of \<open>filepath.Walk\<close> in \<open>CreateZip\<close>, run over the entries; the first
  error stops the walk. The archive written so far stays in the file.\<close>

primrec walk :: "walk_entry list \<Rightarrow> archive \<Rightarrow> archive \<times> error option" where
  "walk [] z = (z, None)"
| "walk (e # es) z =
     (if fault e = WalkErr then (z, Some ZipErr)
      else if is_dir e then walk es z
      else if fault e = RelErr then (z, Some ZipErr)
      else if shouldExclude (rel_path e) then walk es z
      else (case fault e of
              CreateErr \<Rightarrow> (z, Some ZipErr)
            | OpenErr \<Rightarrow> (z @ [(rel_path e, [])], Some ZipErr)
            | CopyErr n \<Rightarrow> (z @ [(rel_path e, take n (content e))], Some ZipErr)
            | _ \<Rightarrow> walk es (z @ [(rel_path e, content e)])))"

text \<open>\<open>CreateZip\<close>: \<open>os.Create\<close> of the target (which may fail: \<open>create_err\<close>), then the
  walk. When the walk fails the target file exists all the same, holding what was
  written.\<close>

definition CreateZip :: "bool \<Rightarrow> walk_entry list \<Rightarrow> string \<Rightarrow> disk \<Rightarrow> disk \<times> error option" where
  "CreateZip create_err tree targetFile fs =
     (if create_err then (fs, Some ZipErr)
      else (let (z, err) = walk tree [] in (fs(targetFile \<mapsto> z), err)))"

section \<open>The synchronisation service (internal/service)\<close>

record Repo =
  Name :: string
  URL :: string
  Sync :: string
  Path :: string
  LFS :: bool

record Config =
  Storage_Path :: string
  Download_BaseURL :: string

text \<open>
  \<open>filepath.Join\<close> on a Unix system: the non-empty elements, separated by a slash. The
  lexical cleaning that \<open>Join\<close> applies to the result (\<open>.\<close> and \<open>..\<close> elements,
  doubled slashes) is not modelled: the model is of storage paths and repository names
  that are already clean.
\<close>

fun join_sep :: "string list \<Rightarrow> string" where
  "join_sep [] = []"
| "join_sep [x] = x"
| "join_sep (x # y # ys) = x @ ''/'' @ join_sep (y # ys)"

definition filepath_Join :: "string list \<Rightarrow> string" where
  "filepath_Join elems = join_sep (filter (\<lambda>e. e \<noteq> []) elems)"

text \<open>The responses the API caches (internal/model): a package with its versions. The
  cache holds their JSON encodings; the model holds the values that are encoded.\<close>

record Version =
  pv_File :: string
  pv_Size :: int
  pv_Tag :: string
  pv_Commit :: string
  pv_Download :: string
  pv_UpdatedAt :: int

record PackageInfo =
  pi_Name :: string
  pi_URL :: string
  pi_Versions :: "Version list"

text \<open>The \<open>cache\<close> struct of the API: \<open>None\<close> is Go's \<open>nil\<close> byte slice; the map of
  per-package responses is made empty by \<open>NewAPI\<close>.\<close>

record api_cache =
  cache_packages :: "PackageInfo list option"
  cache_version :: "(int \<times> int) option"
  cache_packageInfo :: "string \<rightharpoonup> PackageInfo"

definition empty_cache :: api_cache where
  "empty_cache = \<lparr>cache_packages = None, cache_version = None, cache_packageInfo = Map.empty\<rparr>"

text \<open>
  What the service and the API act on: the database (both open the same file), the
  files under the storage path, and the API's cache.
\<close>

record world =
  store :: db
  files :: disk
  cache :: api_cache

text \<open>
  What one run of \<open>syncRepo\<close> meets outside the program: whether each call to git, to
  the operating system and to the database fails, what git reports as the latest
  commit and tag, the working copy after the pull, the size the operating system
  reports for the artifact, and the clock. \<open>os.Remove\<close> has no entry: the code ignores
  its result, and the model takes the removal to take place.
\<close>

record sync_env =
  getrepo_err :: bool
  pull_err :: bool
  latest_commit :: "(string \<times> string) option"
  tree :: "walk_entry list"
  stat_err :: bool
  create_err :: bool
  file_size :: "int option"
  now_start :: int
  now_zip :: int
  now_upsert :: int
  upsert_err :: bool
  addversion_err :: bool
  older_err :: bool
  mark_err :: "int \<Rightarrow> bool"

definition zipFileName_of :: "string \<Rightarrow> string \<Rightarrow> string" where
  "zipFileName_of name commitHash = name @ ''-'' @ take 7 commitHash @ ''.zip''"

definition zips_path :: "Config \<Rightarrow> string \<Rightarrow> string" where
  "zips_path cfg file = filepath_Join [Storage_Path cfg, ''zips'', file]"

definition os_Remove :: "string \<Rightarrow> world \<Rightarrow> world" where
  "os_Remove path w = w\<lparr>files := (files w)(path := None)\<rparr>"

text \<open>Lines 118-128 of \<open>syncRepo\<close>: the commit, tag and time of the last recorded
  synchronisation; any error of \<open>GetRepoByName\<close> leaves the initial values.\<close>

definition read_prev :: "sync_env \<Rightarrow> Repo \<Rightarrow> world \<Rightarrow> string \<times> string \<times> int" where
  "read_prev env r w =
     (case (if getrepo_err env then None else GetRepoByName (Name r) (store w)) of
        None \<Rightarrow> ([], [], now_start env)
      | Some dbRepo \<Rightarrow> (repo_CommitHash dbRepo, repo_Tag dbRepo, repo_LastSync dbRepo))"

definition prev_commit :: "sync_env \<Rightarrow> Repo \<Rightarrow> world \<Rightarrow> string" where
  "prev_commit env r w = fst (read_prev env r w)"

definition prev_tag :: "sync_env \<Rightarrow> Repo \<Rightarrow> world \<Rightarrow> string" where
  "prev_tag env r w = fst (snd (read_prev env r w))"

definition prev_sync :: "sync_env \<Rightarrow> Repo \<Rightarrow> world \<Rightarrow> int" where
  "prev_sync env r w = snd (snd (read_prev env r w))"

text \<open>Lines 145-158: build the artifact unless a file of its name exists. The result is
  the new state with \<open>zipCreated\<close> and \<open>lastSync\<close>, or the error.\<close>

definition ensure_zip ::
  "sync_env \<Rightarrow> string \<Rightarrow> int \<Rightarrow> world \<Rightarrow> world \<times> (error + bool \<times> int)" where
  "ensure_zip env zipFilePath lastSync w =
     (if stat_err env then (w, Inl StatErr)
      else if files w zipFilePath \<noteq> None then (w, Inr (False, lastSync))
      else (case CreateZip (create_err env) (tree env) zipFilePath (files w) of
              (fs, Some e) \<Rightarrow> (w\<lparr>files := fs\<rparr>, Inl e)
            | (fs, None) \<Rightarrow> (w\<lparr>files := fs\<rparr>, Inr (True, now_zip env))))"

text \<open>Lines 160-194: the size of the artifact, the repository row, the version row.\<close>

definition write_meta ::
  "sync_env \<Rightarrow> Repo \<Rightarrow> string \<Rightarrow> string \<Rightarrow> string \<Rightarrow> int \<Rightarrow> world \<Rightarrow> world \<times> (error + DBRepo)" where
  "write_meta env r tag commitHash zipFileName lastSync w =
     (case file_size env of
        None \<Rightarrow> (w, Inl SizeErr)
      | Some sz \<Rightarrow>
          if upsert_err env then (w, Inl DbErr)
          else
            (let (d1, dbRepo) =
                   UpsertRepo (now_upsert env)
                     \<lparr>repo_ID = 0, repo_Name = Name r, repo_URL = URL r, repo_Sync = Sync r,
                      repo_Tag = tag, repo_LastSync = lastSync, repo_CommitHash = commitHash,
                      repo_ZipFile = zipFileName, repo_Size = sz,
                      repo_CreatedAt = 0, repo_UpdatedAt = 0\<rparr>
                     (store w);
                 w1 = w\<lparr>store := d1\<rparr>
             in if addversion_err env then (w1, Inl DbErr)
                else
                  (let (d2, version) =
                         AddVersion
                           \<lparr>ver_ID = 0, ver_RepoID = repo_ID dbRepo, ver_Tag = tag,
                            ver_CommitHash = commitHash, ver_ZipFile = zipFileName,
                            ver_Size = sz, ver_CreatedAt = lastSync, ver_Deleted = 0\<rparr>
                           (store w1)
                   in (w1\<lparr>store := d2\<rparr>, Inr dbRepo))))"

text \<open>Lines 196-201: the tag has not changed and the commit has: remove the artifact
  named after the commit recorded before.\<close>

definition drop_moved :: "Config \<Rightarrow> Repo \<Rightarrow> string \<Rightarrow> string \<Rightarrow> string \<Rightarrow> string \<Rightarrow> world \<Rightarrow> world" where
  "drop_moved cfg r latestTag latestCommitHash tag commitHash w =
     (if latestTag = tag \<and> length latestCommitHash \<ge> 7 \<and> latestCommitHash \<noteq> commitHash
      then os_Remove (zips_path cfg (zipFileName_of (Name r) latestCommitHash)) w
      else w)"

text \<open>Lines 210-219: remove the file of each version and mark the version deleted; the
  first refusal of the database ends the loop with an error (\<open>False\<close>).\<close>

fun retire :: "Config \<Rightarrow> (int \<Rightarrow> bool) \<Rightarrow> DBVersion list \<Rightarrow> world \<Rightarrow> world \<times> bool" where
  "retire cfg fails [] w = (w, True)"
| "retire cfg fails (version # rest) w =
     (let w1 = os_Remove (zips_path cfg (ver_ZipFile version)) w in
      if fails (ver_ID version) then (w1, False)
      else retire cfg fails rest (w1\<lparr>store := MarkVersionAsDeleted (ver_ID version) (store w1)\<rparr>))"

text \<open>Lines 203-220: the retention pass.\<close>

definition exempt :: "DBVersion list \<Rightarrow> bool" where
  "exempt vs = (case vs of [v] \<Rightarrow> ver_Tag v = [] | _ \<Rightarrow> False)"

definition retention :: "Config \<Rightarrow> sync_env \<Rightarrow> int \<Rightarrow> world \<Rightarrow> world \<times> bool" where
  "retention cfg env repoID w =
     (if older_err env then (w, False)
      else (let vs = GetOlderThan3LatestUnDeletedVersions repoID (store w) in
            if \<not> exempt vs then retire cfg (mark_err env) vs w else (w, True)))"

text \<open>
  \<open>syncRepo\<close>. The slice \<open>commitHash[:7]\<close> panics on a commit identifier of fewer than
  seven bytes (\<open>SliceBounds\<close>); the identifiers git reports have forty.
\<close>

definition syncRepo :: "Config \<Rightarrow> sync_env \<Rightarrow> Repo \<Rightarrow> world \<Rightarrow> world \<times> (error + bool)" where
  "syncRepo cfg env r w =
     (let (latestCommitHash, latestTag, lastSync0) = read_prev env r w in
      if pull_err env then (w, Inl GitErr)
      else case latest_commit env of
        None \<Rightarrow> (w, Inl GitErr)
      | Some (commitHash, tag) \<Rightarrow>
          if length commitHash < 7 then (w, Inl SliceBounds)
          else
            (let zipFileName = zipFileName_of (Name r) commitHash;
                 zipFilePath = zips_path cfg zipFileName
             in case ensure_zip env zipFilePath lastSync0 w of
                  (w1, Inl e) \<Rightarrow> (w1, Inl e)
                | (w1, Inr (zipCreated, lastSync)) \<Rightarrow>
                    (case write_meta env r tag commitHash zipFileName lastSync w1 of
                       (w2, Inl e) \<Rightarrow> (w2, Inl e)
                     | (w2, Inr dbRepo) \<Rightarrow>
                         (case retention cfg env (repo_ID dbRepo)
                                 (drop_moved cfg r latestTag latestCommitHash tag commitHash w2) of
                            (w3, False) \<Rightarrow> (w3, Inl DbErr)
                          | (w3, True) \<Rightarrow> (w3, Inr (zipCreated \<or> tag \<noteq> latestTag))))))"

text \<open>
  \<open>SyncAll\<close> starts one goroutine per repository; each runs \<open>syncRepo\<close>, whose whole body
  holds the service's mutex, so the pipelines run one after another in the order in
  which they take the mutex. That order is the order of the list \<open>runs\<close>, which pairs
  each repository with what its pipeline meets. Each goroutine sends its error to the
  channel or sets \<open>hasChanges\<close> before \<open>wg.Wait()\<close> returns. A pipeline that panics ends
  the process (\<open>None\<close>): \<open>SyncAll\<close> does not return.
\<close>

fun run_pipelines ::
  "Config \<Rightarrow> (Repo \<times> sync_env) list \<Rightarrow> (string \<times> error) list \<Rightarrow> bool \<Rightarrow> world
     \<Rightarrow> world \<times> ((string \<times> error) list \<times> bool) option" where
  "run_pipelines cfg [] errs hasChanges w = (w, Some (errs, hasChanges))"
| "run_pipelines cfg ((r, env) # rest) errs hasChanges w =
     (case syncRepo cfg env r w of
        (w1, Inl SliceBounds) \<Rightarrow> (w1, None)
      | (w1, Inl e) \<Rightarrow> run_pipelines cfg rest (errs @ [(Name r, e)]) hasChanges w1
      | (w1, Inr changed) \<Rightarrow> run_pipelines cfg rest errs (hasChanges \<or> changed) w1)"

datatype sync_result = Crashed | SyncErrors "(string \<times> error) list" | Synced

record bump_env =
  bump_err :: bool
  bump_now :: int

text \<open>\<open>SyncAll\<close>, lines 64-111. \<open>onSync\<close> is the registered callback, \<open>None\<close> when none
  is set.\<close>

definition SyncAll ::
  "Config \<Rightarrow> (Repo \<times> sync_env) list \<Rightarrow> bump_env \<Rightarrow> (world \<Rightarrow> world) option \<Rightarrow> world
     \<Rightarrow> world \<times> sync_result" where
  "SyncAll cfg runs benv onSync w =
     (case run_pipelines cfg runs [] False w of
        (w1, None) \<Rightarrow> (w1, Crashed)
      | (w1, Some (errs, hasChanges)) \<Rightarrow>
          if length errs > 0 then (w1, SyncErrors errs)
          else if hasChanges then
            (let w2 = (if bump_err benv then w1
                       else w1\<lparr>store := IncrementPackageListVersion (bump_now benv) (store w1)\<rparr>);
                 w3 = (case onSync of None \<Rightarrow> w2 | Some callback \<Rightarrow> callback w2)
             in (w3, Synced))
          else (w1, Synced))"

section \<open>The API and its cache (internal/handler)\<close>

definition getDownloadURL :: "Config \<Rightarrow> string \<Rightarrow> string" where
  "getDownloadURL cfg filename = Download_BaseURL cfg @ ''/zips/'' @ filename"

definition to_Version :: "Config \<Rightarrow> DBVersion \<Rightarrow> Version" where
  "to_Version cfg v =
     \<lparr>pv_File = ver_ZipFile v, pv_Size = ver_Size v, pv_Tag = ver_Tag v,
      pv_Commit = ver_CommitHash v, pv_Download = getDownloadURL cfg (ver_ZipFile v),
      pv_UpdatedAt = ver_CreatedAt v\<rparr>"

text \<open>
  What one run of \<open>UpdateCache\<close> meets: the failures of its database calls and the two
  clocks. \<open>json.Marshal\<close> does not fail on the structs encoded here, so it has no
  entry.
\<close>

record cache_env =
  allrepos_err :: bool
  versions_err :: "int \<Rightarrow> bool"
  latest_err :: bool
  init_err :: bool
  cache_now :: int
  cache_db_now :: int

text \<open>The loop of \<open>UpdateCache\<close> over the repositories (lines 122-162): a repository
  whose versions cannot be read is skipped.\<close>

fun cache_repos ::
  "Config \<Rightarrow> (int \<Rightarrow> bool) \<Rightarrow> db \<Rightarrow> DBRepo list
     \<Rightarrow> PackageInfo list \<times> (string \<rightharpoonup> PackageInfo) \<Rightarrow> PackageInfo list \<times> (string \<rightharpoonup> PackageInfo)" where
  "cache_repos cfg fails d [] acc = acc"
| "cache_repos cfg fails d (repo # rest) (packages, infos) =
     (if fails (repo_ID repo) then cache_repos cfg fails d rest (packages, infos)
      else (let packageInfo =
                  \<lparr>pi_Name = repo_Name repo, pi_URL = repo_URL repo,
                   pi_Versions = map (to_Version cfg) (GetVersionsByRepoID (repo_ID repo) 3 d)\<rparr>
            in cache_repos cfg fails d rest
                 (packages @ [packageInfo], infos(repo_Name repo \<mapsto> packageInfo))))"

definition UpdateCache :: "Config \<Rightarrow> cache_env \<Rightarrow> world \<Rightarrow> world \<times> error option" where
  "UpdateCache cfg env w =
     (if allrepos_err env then (w, Some DbErr)
      else
        (let (packages, infos) =
               cache_repos cfg (versions_err env) (store w) (GetAllRepos (store w))
                 ([], cache_packageInfo (cache w));
             c1 = (cache w)\<lparr>cache_packageInfo := infos, cache_packages := Some packages\<rparr>
         in case GetLatestPackageListVersion (latest_err env) (init_err env)
                   (cache_now env) (cache_db_now env) (store w) of
              (d, Inl e) \<Rightarrow> (w\<lparr>store := d, cache := c1\<rparr>, Some e)
            | (d, Inr version) \<Rightarrow>
                (w\<lparr>store := d,
                   cache := c1\<lparr>cache_version := Some (plv_Version version, plv_UpdatedAt version)\<rparr>\<rparr>,
                 None)))"

text \<open>\<open>NewAPI\<close>: the cache starts with no packages document, no version document and an
  empty map; the first \<open>UpdateCache\<close> follows, and its error is only logged.\<close>

definition NewAPI :: "Config \<Rightarrow> cache_env \<Rightarrow> world \<Rightarrow> world" where
  "NewAPI cfg env w = fst (UpdateCache cfg env (w\<lparr>cache := empty_cache\<rparr>))"

datatype body =
    PackagesBody "PackageInfo list"
  | PackageBody PackageInfo
  | VersionBody int int

datatype response = Wrote body | HttpError nat string

definition listPackages :: "api_cache \<Rightarrow> response" where
  "listPackages c =
     (case cache_packages c of
        None \<Rightarrow> HttpError 500 ''Cache not initialized''
      | Some packages \<Rightarrow> Wrote (PackagesBody packages))"

definition getPackageVersions :: "string \<Rightarrow> api_cache \<Rightarrow> response" where
  "getPackageVersions name c =
     (if name = [] then HttpError 400 ''package name is required''
      else case cache_packageInfo c name of
        Some cached \<Rightarrow> Wrote (PackageBody cached)
      | None \<Rightarrow> HttpError 404 ''package not found'')"

definition getPackageListVersion :: "api_cache \<Rightarrow> response" where
  "getPackageListVersion c =
     (case cache_version c of
        None \<Rightarrow> HttpError 500 ''Cache not initialized''
      | Some (version, updatedAt) \<Rightarrow> Wrote (VersionBody version updatedAt))"

section \<open>Notions the statements use\<close>

text \<open>An entry of the source tree that is not a directory and whose relative path has
  neither of the two prefixes.\<close>

definition included :: "walk_entry \<Rightarrow> bool" where
  "included e = (\<not> is_dir e \<and> \<not> HasPrefix (rel_path e) ''.git''
                  \<and> \<not> HasPrefix (rel_path e) ''.github'')"

text \<open>
  The constraints the schema puts on the tables (\<open>Schema\<close> in internal/model): every
  \<open>id\<close> is a primary key handed out by \<open>AUTOINCREMENT\<close>, \<open>repos.name\<close> is unique, and
  \<open>versions\<close> is unique on \<open>(repo_id, tag)\<close>.
\<close>

definition store_ok :: "db \<Rightarrow> bool" where
  "store_ok d =
     (distinct (map repo_ID (repos d)) \<and> list_all (\<lambda>x. repo_ID x \<le> seq_repos d) (repos d)
      \<and> distinct (map repo_Name (repos d))
      \<and> distinct (map ver_ID (versions d)) \<and> list_all (\<lambda>x. ver_ID x \<le> seq_versions d) (versions d)
      \<and> distinct (map (\<lambda>v. (ver_RepoID v, ver_Tag v)) (versions d))
      \<and> distinct (map plv_ID (package_list_versions d))
      \<and> list_all (\<lambda>x. plv_ID x \<le> seq_plv d) (package_list_versions d))"

text \<open>Marking a set of versions deleted, as the loop of \<open>retire\<close> does one by one.\<close>

definition mark_all :: "int set \<Rightarrow> DBVersion list \<Rightarrow> DBVersion list" where
  "mark_all S vs = map (\<lambda>x. if ver_ID x \<in> S then x\<lparr>ver_Deleted := 1\<rparr> else x) vs"

text \<open>The key of a version row, \<open>(repo_id, tag)\<close>, and the columns that only
  \<open>AddVersion\<close> writes.\<close>

definition ver_key :: "DBVersion \<Rightarrow> int \<times> string" where
  "ver_key v = (ver_RepoID v, ver_Tag v)"

definition ver_data :: "DBVersion \<Rightarrow> int \<times> int \<times> string \<times> string \<times> string \<times> int \<times> int" where
  "ver_data v = (ver_ID v, ver_RepoID v, ver_Tag v, ver_CommitHash v, ver_ZipFile v, ver_Size v,
                 ver_CreatedAt v)"

section \<open>Example repositories, runs and states\<close>

definition ex_cfg :: Config where
  "ex_cfg = \<lparr>Storage_Path = ''/d'', Download_BaseURL = ''http://h''\<rparr>"

definition ex_repo :: Repo where
  "ex_repo = \<lparr>Name = ''r'', URL = ''u'', Sync = [], Path = ''/d/repos/r'', LFS = False\<rparr>"

text \<open>A run in which nothing fails: git reports commit \<open>c\<close> and tag \<open>t\<close>, the working
  copy holds one file, and the clock shows \<open>n\<close>.\<close>

definition ex_env :: "string \<Rightarrow> string \<Rightarrow> int \<Rightarrow> sync_env" where
  "ex_env c t n =
     \<lparr>getrepo_err = False, pull_err = False, latest_commit = Some (c, t),
      tree = [\<lparr>rel_path = ''a'', is_dir = False, content = ''x'', fault = NoFault\<rparr>],
      stat_err = False, create_err = False, file_size = Some 10,
      now_start = n, now_zip = n, now_upsert = n,
      upsert_err = False, addversion_err = False, older_err = False,
      mark_err = (\<lambda>i. False)\<rparr>"

definition ex_world :: world where
  "ex_world = \<lparr>store = empty_db, files = Map.empty, cache = empty_cache\<rparr>"

definition ex_row :: "int \<Rightarrow> string \<Rightarrow> string \<Rightarrow> string \<Rightarrow> int \<Rightarrow> int \<Rightarrow> DBVersion" where
  "ex_row i t c z at del =
     \<lparr>ver_ID = i, ver_RepoID = 1, ver_Tag = t, ver_CommitHash = c, ver_ZipFile = z,
      ver_Size = 10, ver_CreatedAt = at, ver_Deleted = del\<rparr>"

definition ex_state ::
  "string \<Rightarrow> string \<Rightarrow> int \<Rightarrow> int \<Rightarrow> DBVersion list \<Rightarrow> string list \<Rightarrow> world" where
  "ex_state t c ls upd vs zs =
     \<lparr>store = \<lparr>repos = [\<lparr>repo_ID = 1, repo_Name = ''r'', repo_URL = ''u'', repo_Sync = [],
                          repo_Tag = t, repo_LastSync = ls, repo_CommitHash = c,
                          repo_ZipFile = ''r-'' @ take 7 c @ ''.zip'', repo_Size = 10,
                          repo_CreatedAt = 1, repo_UpdatedAt = upd\<rparr>],
               versions = vs, package_list_versions = [],
               seq_repos = 1, seq_versions = int (length vs), seq_plv = 0\<rparr>,
      files = map_of (map (\<lambda>z. (''/d/zips/'' @ z, [(''a'', ''x'')])) zs),
      cache = empty_cache\<rparr>"

text \<open>The state after the first synchronisation of the example repository, at commit
  \<open>aaaaaaa1\<close> tagged \<open>v1\<close>.\<close>

definition ex_world1 :: world where
  "ex_world1 = ex_state ''v1'' ''aaaaaaa1'' 1 1
     [ex_row 1 ''v1'' ''aaaaaaa1'' ''r-aaaaaaa.zip'' 1 0] [''r-aaaaaaa.zip'']"

text \<open>
  The states after four more synchronisations of the example repository: commit
  \<open>bbbbbbb1\<close> tagged \<open>v2\<close>, commit \<open>ccccccc1\<close> tagged \<open>v3\<close>, then the head back at
  commit \<open>aaaaaaa1\<close>, now tagged \<open>v4\<close>, and that same commit and tag once more.
\<close>

definition ex_world2 :: world where
  "ex_world2 = ex_state ''v2'' ''bbbbbbb1'' 2 2
     [ex_row 1 ''v1'' ''aaaaaaa1'' ''r-aaaaaaa.zip'' 1 0,
      ex_row 2 ''v2'' ''bbbbbbb1'' ''r-bbbbbbb.zip'' 2 0]
     [''r-bbbbbbb.zip'', ''r-aaaaaaa.zip'']"

definition ex_world3 :: world where
  "ex_world3 = ex_state ''v3'' ''ccccccc1'' 3 3
     [ex_row 1 ''v1'' ''aaaaaaa1'' ''r-aaaaaaa.zip'' 1 0,
      ex_row 2 ''v2'' ''bbbbbbb1'' ''r-bbbbbbb.zip'' 2 0,
      ex_row 3 ''v3'' ''ccccccc1'' ''r-ccccccc.zip'' 3 0]
     [''r-ccccccc.zip'', ''r-bbbbbbb.zip'', ''r-aaaaaaa.zip'']"

definition ex_world4 :: world where
  "ex_world4 = ex_state ''v4'' ''aaaaaaa1'' 3 4
     [ex_row 1 ''v1'' ''aaaaaaa1'' ''r-aaaaaaa.zip'' 1 1,
      ex_row 2 ''v2'' ''bbbbbbb1'' ''r-bbbbbbb.zip'' 2 0,
      ex_row 3 ''v3'' ''ccccccc1'' ''r-ccccccc.zip'' 3 0,
      ex_row 4 ''v4'' ''aaaaaaa1'' ''r-aaaaaaa.zip'' 3 0]
     [''r-ccccccc.zip'', ''r-bbbbbbb.zip'']"

definition ex_world5 :: world where
  "ex_world5 = ex_state ''v4'' ''aaaaaaa1'' 5 5
     [ex_row 1 ''v1'' ''aaaaaaa1'' ''r-aaaaaaa.zip'' 1 1,
      ex_row 2 ''v2'' ''bbbbbbb1'' ''r-bbbbbbb.zip'' 2 0,
      ex_row 3 ''v3'' ''ccccccc1'' ''r-ccccccc.zip'' 3 0,
      ex_row 4 ''v4'' ''aaaaaaa1'' ''r-aaaaaaa.zip'' 5 0]
     [''r-aaaaaaa.zip'', ''r-ccccccc.zip'', ''r-bbbbbbb.zip'']"





text \<open>
  After the first three runs of the example, the state after a fourth run at commit
  \<open>ddddddd1\<close> tagged \<open>v4\<close> in which nothing fails: the row of \<open>v1\<close> is retired and its
  artifact removed.
\<close>

definition ex_worldF :: world where
  "ex_worldF = ex_state ''v4'' ''ddddddd1'' 4 4
     [ex_row 1 ''v1'' ''aaaaaaa1'' ''r-aaaaaaa.zip'' 1 1,
      ex_row 2 ''v2'' ''bbbbbbb1'' ''r-bbbbbbb.zip'' 2 0,
      ex_row 3 ''v3'' ''ccccccc1'' ''r-ccccccc.zip'' 3 0,
      ex_row 4 ''v4'' ''ddddddd1'' ''r-ddddddd.zip'' 4 0]
     [''r-ddddddd.zip'', ''r-ccccccc.zip'', ''r-bbbbbbb.zip'']"


text \<open>A second repository, and a run of it in which the pull fails; the cache rebuild
  as the registered callback; a bump the database accepts; the package document of
  the example repository after its first synchronisation.\<close>

definition ex_repo2 :: Repo where
  "ex_repo2 = \<lparr>Name = ''s'', URL = ''u2'', Sync = [], Path = ''/d/repos/s'', LFS = False\<rparr>"

definition ex_cache_env :: cache_env where
  "ex_cache_env = \<lparr>allrepos_err = False, versions_err = (\<lambda>i. False), latest_err = False,
                    init_err = False, cache_now = 9, cache_db_now = 9\<rparr>"

definition ex_callback :: "world \<Rightarrow> world" where
  "ex_callback w = fst (UpdateCache ex_cfg ex_cache_env w)"

definition ex_bump :: bump_env where
  "ex_bump = \<lparr>bump_err = False, bump_now = 8\<rparr>"

definition ex_down :: "int \<Rightarrow> sync_env" where
  "ex_down n = (ex_env ''eeeeeee1'' ''w1'' n)\<lparr>pull_err := True\<rparr>"

definition ex_info :: PackageInfo where
  "ex_info = \<lparr>pi_Name = ''r'', pi_URL = ''u'',
               pi_Versions = [\<lparr>pv_File = ''r-aaaaaaa.zip'', pv_Size = 10,
                 pv_Tag = ''v1'', pv_Commit = ''aaaaaaa1'',
                 pv_Download = ''http://h/zips/r-aaaaaaa.zip'', pv_UpdatedAt = 1\<rparr>]\<rparr>"

section \<open>Catalog version\<close>

lemma fold_max_ge: "(a::int) \<le> fold max xs a"
  by (induction xs arbitrary: a) (auto intro: order_trans [OF max.cobounded2])

lemma fold_max_append: "fold max (xs @ [y]) (a::int) = max y (fold max xs a)"
  by simp

lemma max_version_Increment:
  "max_version (IncrementPackageListVersion now d) = max_version d + 1"
proof (cases "package_list_versions d")
  case Nil
  then show ?thesis
    by (simp add: max_version_def IncrementPackageListVersion_def Let_def)
next
  case (Cons x xs)
  then show ?thesis
    by (simp add: max_version_def IncrementPackageListVersion_def Let_def)
qed

lemma max_version_UpsertRepo: "max_version (fst (UpsertRepo now r d)) = max_version d"
  by (simp add: UpsertRepo_def max_version_def Let_def split: option.splits)

lemma max_version_AddVersion: "max_version (fst (AddVersion v d)) = max_version d"
  by (simp add: AddVersion_def max_version_def Let_def split: option.splits)

lemma max_version_Mark: "max_version (MarkVersionAsDeleted i d) = max_version d"
  by (simp add: MarkVersionAsDeleted_def max_version_def)

lemma max_version_GetLatest:
  "max_version d \<le> max_version (fst (GetLatestPackageListVersion se ie now dbn d))"
  by (simp add: GetLatestPackageListVersion_def max_version_Increment split: option.splits)

lemma max_version_store_exec: "max_version d \<le> max_version (store_exec c d)"
proof (cases c)
  case (Pair call ok)
  show ?thesis
  proof (cases ok)
    case False
    with Pair show ?thesis by simp
  next
    case True
    with Pair show ?thesis
      by (cases call)
         (simp_all add: max_version_UpsertRepo max_version_AddVersion max_version_Mark
            max_version_GetLatest max_version_Increment)
  qed
qed

lemma max_version_store_run: "max_version d \<le> max_version (store_run cs d)"
  unfolding store_run_def
proof (induction cs arbitrary: d)
  case Nil
  show ?case by simp
next
  case (Cons c cs)
  have "max_version d \<le> max_version (store_exec c d)"
    by (rule max_version_store_exec)
  also have "\<dots> \<le> max_version (fold store_exec cs (store_exec c d))"
    by (rule Cons.IH)
  finally show ?case by simp
qed

text \<open>
  Claim C5. Every accepted invocation of the bump statement raises the catalog version
  that the table holds (its \<open>COALESCE(MAX(version), 0)\<close>) by exactly one, starting from
  0 when the table is empty, and no sequence of store operations, accepted or refused,
  ever lowers it.
\<close>

theorem catalog_version_bump_and_monotone:
  "max_version (IncrementPackageListVersion now d) = max_version d + 1
   \<and> (package_list_versions d = [] \<longrightarrow> max_version (IncrementPackageListVersion now d) = 1)
   \<and> max_version d \<le> max_version (store_run cs d)"
proof -
  have "package_list_versions d = [] \<Longrightarrow> max_version d = 0"
    by (simp add: max_version_def)
  then show ?thesis
    using max_version_Increment [of now d] max_version_store_run [of d cs] by auto
qed

theorem catalog_version_bump_and_monotone_witness:
  "package_list_versions empty_db = []
   \<and> max_version (IncrementPackageListVersion 7 empty_db) = 1
   \<and> max_version empty_db
       \<le> max_version (store_run [(CallIncrementPackageListVersion 3, True),
                                 (CallIncrementPackageListVersion 4, False),
                                 (CallGetLatestPackageListVersion False 5 5, True)] empty_db)"
  using catalog_version_bump_and_monotone
    [of 7 empty_db "[(CallIncrementPackageListVersion 3, True),
                     (CallIncrementPackageListVersion 4, False),
                     (CallGetLatestPackageListVersion False 5 5, True)]"]
  by (simp add: empty_db_def)

text \<open>
  Claim C6. Reading the catalog version from a table with no row writes the first row:
  the call returns version 1 with the caller's time stamp, the table then holds exactly
  one row, of version 1 (so the catalog version has gone from 0 to 1, a bump), and the
  next read returns that row. When the database refuses the insert the read fails: no
  version is returned that was not written.
\<close>

theorem lazy_initial_version:
  assumes "package_list_versions d = []"
  shows "GetLatestPackageListVersion False False now db_now d =
           (IncrementPackageListVersion db_now d,
            Inr \<lparr>plv_ID = 0, plv_Version = 1, plv_UpdatedAt = now\<rparr>)
         \<and> package_list_versions (IncrementPackageListVersion db_now d) =
             [\<lparr>plv_ID = seq_plv d + 1, plv_Version = 1, plv_UpdatedAt = db_now\<rparr>]
         \<and> max_version d = 0
         \<and> max_version (IncrementPackageListVersion db_now d) = 1
         \<and> GetLatestPackageListVersion False True now db_now d = (d, Inl DbErr)
         \<and> GetLatestPackageListVersion False ie now' db_now' (IncrementPackageListVersion db_now d) =
             (IncrementPackageListVersion db_now d,
              Inr \<lparr>plv_ID = seq_plv d + 1, plv_Version = 1, plv_UpdatedAt = db_now\<rparr>)"
  using assms
  by (simp add: GetLatestPackageListVersion_def IncrementPackageListVersion_def
        max_version_def Let_def)

theorem lazy_initial_version_witness:
  "package_list_versions empty_db = []
   \<and> snd (GetLatestPackageListVersion False False 10 11 empty_db) =
       Inr \<lparr>plv_ID = 0, plv_Version = 1, plv_UpdatedAt = 10\<rparr>
   \<and> package_list_versions (fst (GetLatestPackageListVersion False False 10 11 empty_db)) =
       [\<lparr>plv_ID = 1, plv_Version = 1, plv_UpdatedAt = 11\<rparr>]"
  using lazy_initial_version [of empty_db 10 11]
  by (simp add: empty_db_def)

section \<open>What the archive holds\<close>

lemma HasPrefix_append:
  assumes "HasPrefix s (p @ q)" shows "HasPrefix s p"
proof -
  from assms have l: "length (p @ q) \<le> length s" and t: "take (length (p @ q)) s = p @ q"
    by (simp_all add: HasPrefix_def)
  have "take (length p) s = take (length p) (take (length (p @ q)) s)"
    by (simp add: min_def)
  also have "\<dots> = p" by (simp only: t) simp
  finally show ?thesis using l by (simp add: HasPrefix_def)
qed

lemma HasPrefix_git: "HasPrefix p ''.github'' \<Longrightarrow> HasPrefix p ''.git''"
  using HasPrefix_append [of p "''.git''" "''hub''"] by simp

lemma shouldExclude_iff: "shouldExclude p = (HasPrefix p ''.git'' \<or> HasPrefix p ''.github'')"
  by (simp add: shouldExclude_def ExcludePaths_def)

lemma walk_ok:
  "walk es z = (z', None) \<Longrightarrow>
     z' = z @ map (\<lambda>e. (rel_path e, content e)) (filter included es)"
proof (induction es arbitrary: z)
  case Nil
  then show ?case by simp
next
  case (Cons e es)
  show ?case
  proof (cases "included e")
    case True
    with Cons.prems have "walk es (z @ [(rel_path e, content e)]) = (z', None)"
      by (simp add: included_def shouldExclude_iff split: if_splits fault.splits)
    from Cons.IH [OF this] True show ?thesis by simp
  next
    case False
    with Cons.prems have "walk es z = (z', None)"
      by (simp add: included_def shouldExclude_iff split: if_splits fault.splits)
    from Cons.IH [OF this] False show ?thesis by simp
  qed
qed


lemma CreateZip_ok:
  assumes "CreateZip ce es target fs = (fs', None)"
  shows "fs' = fs(target \<mapsto> map (\<lambda>e. (rel_path e, content e)) (filter included es))"
proof -
  obtain z err where w: "walk es [] = (z, err)" by (cases "walk es []")
  with assms have "err = None" and fs': "fs' = fs(target \<mapsto> z)"
    by (auto simp: CreateZip_def split: if_splits)
  with w walk_ok [of es "[]" z] show ?thesis by simp
qed

text \<open>
  Claim C10. When \<open>CreateZip\<close> succeeds, the archive holds, in walking order, exactly the
  entries of the source tree that are not directories and whose path relative to the
  source root begins with neither \<open>.git\<close> nor \<open>.github\<close>, each with its bytes. The
  test is on the characters of the path: every path that begins with \<open>.git\<close> is left
  out, \<open>.gitignore\<close> and \<open>.gitattributes\<close> at the root among them, while a
  \<open>.git\<close> directory below the root is not.
\<close>

theorem CreateZip_members:
  assumes "CreateZip ce es target fs = (fs', None)"
  shows "fs' target =
           Some (map (\<lambda>e. (rel_path e, content e))
                  (filter (\<lambda>e. \<not> is_dir e \<and> \<not> HasPrefix (rel_path e) ''.git''
                                \<and> \<not> HasPrefix (rel_path e) ''.github'') es))
         \<and> shouldExclude (''.git'' @ rest)
         \<and> shouldExclude ''.gitignore'' \<and> shouldExclude ''.gitattributes''
         \<and> \<not> shouldExclude ''sub/.git/config''"
proof -
  have "included = (\<lambda>e. \<not> is_dir e \<and> \<not> HasPrefix (rel_path e) ''.git''
                          \<and> \<not> HasPrefix (rel_path e) ''.github'')"
    by (rule ext) (simp add: included_def)
  with CreateZip_ok [OF assms] have "fs' target =
           Some (map (\<lambda>e. (rel_path e, content e))
                  (filter (\<lambda>e. \<not> is_dir e \<and> \<not> HasPrefix (rel_path e) ''.git''
                                \<and> \<not> HasPrefix (rel_path e) ''.github'') es))"
    by simp
  moreover have "shouldExclude (''.git'' @ rest)"
    by (simp add: shouldExclude_iff HasPrefix_def)
  moreover have "shouldExclude ''.gitignore''" "shouldExclude ''.gitattributes''"
    "\<not> shouldExclude ''sub/.git/config''"
    by (simp_all add: shouldExclude_iff HasPrefix_def)
  ultimately show ?thesis by simp
qed

theorem CreateZip_members_witness:
  "CreateZip False
     [\<lparr>rel_path = ''.'', is_dir = True, content = [], fault = NoFault\<rparr>,
      \<lparr>rel_path = ''.git'', is_dir = True, content = [], fault = NoFault\<rparr>,
      \<lparr>rel_path = ''.git/config'', is_dir = False, content = ''c'', fault = NoFault\<rparr>,
      \<lparr>rel_path = ''.gitignore'', is_dir = False, content = ''i'', fault = NoFault\<rparr>,
      \<lparr>rel_path = ''main.go'', is_dir = False, content = ''m'', fault = NoFault\<rparr>]
     ''r.zip'' Map.empty = ([''r.zip'' \<mapsto> [(''main.go'', ''m'')]], None)
   \<and> [''r.zip'' \<mapsto> [(''main.go'', ''m'')]] ''r.zip'' = Some [(''main.go'', ''m'')]"
  using CreateZip_members [of False
     "[\<lparr>rel_path = ''.'', is_dir = True, content = [], fault = NoFault\<rparr>,
      \<lparr>rel_path = ''.git'', is_dir = True, content = [], fault = NoFault\<rparr>,
      \<lparr>rel_path = ''.git/config'', is_dir = False, content = ''c'', fault = NoFault\<rparr>,
      \<lparr>rel_path = ''.gitignore'', is_dir = False, content = ''i'', fault = NoFault\<rparr>,
      \<lparr>rel_path = ''main.go'', is_dir = False, content = ''m'', fault = NoFault\<rparr>]"
     "''r.zip''" Map.empty "[''r.zip'' \<mapsto> [(''main.go'', ''m'')]]"]
  by (simp add: CreateZip_def shouldExclude_iff HasPrefix_def)

section \<open>The stages of a successful run\<close>

lemma syncRepo_success:
  assumes "syncRepo cfg env r w = (w', Inr changed)"
  obtains commitHash tag zipCreated lastSync w1 w2 dbRepo where
    "latest_commit env = Some (commitHash, tag)"
    "7 \<le> length commitHash"
    "ensure_zip env (zips_path cfg (zipFileName_of (Name r) commitHash)) (prev_sync env r w) w
       = (w1, Inr (zipCreated, lastSync))"
    "write_meta env r tag commitHash (zipFileName_of (Name r) commitHash) lastSync w1
       = (w2, Inr dbRepo)"
    "retention cfg env (repo_ID dbRepo)
       (drop_moved cfg r (prev_tag env r w) (prev_commit env r w) tag commitHash w2) = (w', True)"
    "changed = (zipCreated \<or> tag \<noteq> prev_tag env r w)"
  using assms
  by (auto simp: syncRepo_def Let_def prev_commit_def prev_tag_def prev_sync_def
           split: prod.splits option.splits sum.splits if_splits bool.splits)

lemma ensure_zip_success:
  assumes "ensure_zip env p ls w = (w1, Inr (zc, ls'))"
  shows "store w1 = store w" "cache w1 = cache w"
        "zc = (files w p = None)"
        "files w1 p \<noteq> None"
        "files w p \<noteq> None \<Longrightarrow> w1 = w \<and> ls' = ls"
        "files w p = None \<Longrightarrow>
           files w1 = (files w)(p \<mapsto> map (\<lambda>e. (rel_path e, content e)) (filter included (tree env)))
           \<and> ls' = now_zip env"
  using assms
  by (auto simp: ensure_zip_def split: if_splits prod.splits option.splits dest: CreateZip_ok)

lemma write_meta_success:
  assumes "write_meta env r tag c zf ls w = (w2, Inr dbRepo)"
  obtains sz where
    "file_size env = Some sz"
    "files w2 = files w" "cache w2 = cache w"
    "dbRepo = snd (UpsertRepo (now_upsert env)
                     \<lparr>repo_ID = 0, repo_Name = Name r, repo_URL = URL r, repo_Sync = Sync r,
                      repo_Tag = tag, repo_LastSync = ls, repo_CommitHash = c,
                      repo_ZipFile = zf, repo_Size = sz,
                      repo_CreatedAt = 0, repo_UpdatedAt = 0\<rparr> (store w))"
    "store w2 = fst (AddVersion \<lparr>ver_ID = 0, ver_RepoID = repo_ID dbRepo, ver_Tag = tag,
                            ver_CommitHash = c, ver_ZipFile = zf,
                            ver_Size = sz, ver_CreatedAt = ls, ver_Deleted = 0\<rparr>
                 (fst (UpsertRepo (now_upsert env)
                     \<lparr>repo_ID = 0, repo_Name = Name r, repo_URL = URL r, repo_Sync = Sync r,
                      repo_Tag = tag, repo_LastSync = ls, repo_CommitHash = c,
                      repo_ZipFile = zf, repo_Size = sz,
                      repo_CreatedAt = 0, repo_UpdatedAt = 0\<rparr> (store w))))"
  using assms
  by (auto simp: write_meta_def Let_def split: option.splits if_splits prod.splits)


lemma drop_moved_frame:
  "store (drop_moved cfg r lt lc t c w) = store w"
  "cache (drop_moved cfg r lt lc t c w) = cache w"
  "dom (files (drop_moved cfg r lt lc t c w)) \<subseteq> dom (files w)"
  by (auto simp: drop_moved_def os_Remove_def split: if_splits)

lemma retire_frame:
  "retire cfg fails vs w = (w', ok) \<Longrightarrow>
     dom (files w') \<subseteq> dom (files w) \<and> cache w' = cache w
     \<and> repos (store w') = repos (store w)
     \<and> package_list_versions (store w') = package_list_versions (store w)"
proof (induction vs arbitrary: w)
  case Nil
  then show ?case by simp
next
  case (Cons v vs)
  show ?case
  proof (cases "fails (ver_ID v)")
    case True
    with Cons.prems show ?thesis
      by (auto simp: Let_def os_Remove_def split: if_splits)
  next
    case False
    let ?w1 = "os_Remove (zips_path cfg (ver_ZipFile v)) w"
    let ?w2 = "?w1\<lparr>store := MarkVersionAsDeleted (ver_ID v) (store ?w1)\<rparr>"
    from False Cons.prems have "retire cfg fails vs ?w2 = (w', ok)"
      by (simp add: Let_def)
    from Cons.IH [OF this] show ?thesis
      by (auto simp: os_Remove_def MarkVersionAsDeleted_def split: if_splits)
  qed
qed

lemma retention_frame:
  assumes "retention cfg env i w = (w', ok)"
  shows "dom (files w') \<subseteq> dom (files w)" "cache w' = cache w"
    "repos (store w') = repos (store w)"
    "package_list_versions (store w') = package_list_versions (store w)"
  using assms retire_frame [of cfg "mark_err env" "GetOlderThan3LatestUnDeletedVersions i (store w)" w w' ok]
  by (auto simp: retention_def Let_def split: if_splits)

lemma find_map_same:
  "(\<And>x. P (f x) = P x) \<Longrightarrow> find P (map f xs) = map_option f (find P xs)"
  by (induction xs) auto

lemma find_append_None:
  "find P xs = None \<Longrightarrow> find P (xs @ ys) = find P ys"
  by (induction xs) (auto split: if_splits)

lemma GetRepoByName_UpsertRepo:
  "\<exists>row. GetRepoByName (repo_Name repo) (fst (UpsertRepo now repo d)) = Some row
     \<and> repo_ID row = repo_ID (snd (UpsertRepo now repo d))
     \<and> repo_Name row = repo_Name repo
     \<and> repo_Tag row = repo_Tag repo \<and> repo_CommitHash row = repo_CommitHash repo
     \<and> repo_ZipFile row = repo_ZipFile repo \<and> repo_Size row = repo_Size repo
     \<and> repo_LastSync row = repo_LastSync repo"
proof (cases "find (\<lambda>x. repo_Name x = repo_Name repo) (repos d)")
  case None
  then show ?thesis
    by (simp add: UpsertRepo_def GetRepoByName_def Let_def find_append_None)
next
  case (Some old)
  let ?f = "\<lambda>x. if repo_Name x = repo_Name repo
                 then x\<lparr>repo_Tag := repo_Tag repo,
                        repo_LastSync := repo_LastSync repo,
                        repo_CommitHash := repo_CommitHash repo,
                        repo_ZipFile := repo_ZipFile repo,
                        repo_Size := repo_Size repo,
                        repo_UpdatedAt := now\<rparr>
                 else x"
  have "find (\<lambda>x. repo_Name x = repo_Name repo) (map ?f (repos d)) = map_option ?f (Some old)"
    unfolding Some [symmetric] by (rule find_map_same) simp
  moreover from Some have "repo_Name old = repo_Name repo"
    by (auto simp: find_Some_iff)
  ultimately show ?thesis using Some
    by (simp add: UpsertRepo_def GetRepoByName_def Let_def)
qed

lemma repos_AddVersion: "repos (fst (AddVersion v d)) = repos d"
  by (simp add: AddVersion_def Let_def split: option.splits)

lemma join_zips:
  "zips_path cfg f =
     (if Storage_Path cfg = [] then (if f = [] then ''zips'' else ''zips/'' @ f)
      else if f = [] then Storage_Path cfg @ ''/zips''
      else Storage_Path cfg @ ''/zips/'' @ f)"
  by (simp add: zips_path_def filepath_Join_def)



section \<open>Example runs\<close>

lemmas eval_defs = syncRepo_def read_prev_def ensure_zip_def CreateZip_def write_meta_def
  UpsertRepo_def AddVersion_def drop_moved_def retention_def
  GetOlderThan3LatestUnDeletedVersions_def undeleted_of_def by_created_desc_def exempt_def
  zips_path_def filepath_Join_def zipFileName_of_def GetRepoByName_def empty_db_def
  shouldExclude_def ExcludePaths_def HasPrefix_def Let_def same_key_def os_Remove_def
  MarkVersionAsDeleted_def ex_cfg_def ex_repo_def ex_env_def ex_world_def ex_state_def
  ex_row_def prev_tag_def prev_commit_def prev_sync_def

lemma ex_run1:
  "syncRepo ex_cfg (ex_env ''aaaaaaa1'' ''v1'' 1) ex_repo ex_world = (ex_world1, Inr True)"
  by (simp add: eval_defs ex_world1_def)

text \<open>
  After the first run of the example: the same commit and tag again; the same again in
  a run that cannot read the repository's record; and the same commit under the new
  tag \<open>v2\<close>.
\<close>

lemma ex_rerun1_unread:
  "syncRepo ex_cfg ((ex_env ''aaaaaaa1'' ''v1'' 2)\<lparr>getrepo_err := True\<rparr>) ex_repo ex_world1 =
     (ex_state ''v1'' ''aaaaaaa1'' 2 2
        [ex_row 1 ''v1'' ''aaaaaaa1'' ''r-aaaaaaa.zip'' 2 0] [''r-aaaaaaa.zip''], Inr True)"
  by (simp add: eval_defs ex_world1_def fun_eq_iff)

lemma ex_rerun1:
  "syncRepo ex_cfg (ex_env ''aaaaaaa1'' ''v1'' 2) ex_repo ex_world1 =
     (ex_state ''v1'' ''aaaaaaa1'' 1 2
        [ex_row 1 ''v1'' ''aaaaaaa1'' ''r-aaaaaaa.zip'' 1 0] [''r-aaaaaaa.zip''], Inr False)"
  by (simp add: eval_defs ex_world1_def fun_eq_iff)

lemma ex_retag:
  "syncRepo ex_cfg (ex_env ''aaaaaaa1'' ''v2'' 2) ex_repo ex_world1 =
     (ex_state ''v2'' ''aaaaaaa1'' 1 2
        [ex_row 1 ''v1'' ''aaaaaaa1'' ''r-aaaaaaa.zip'' 1 0,
         ex_row 2 ''v2'' ''aaaaaaa1'' ''r-aaaaaaa.zip'' 1 0] [''r-aaaaaaa.zip''], Inr True)"
  by (simp add: eval_defs ex_world1_def fun_eq_iff)

lemma ex_world1_repos:
  "repos (store ex_world1) =
     [\<lparr>repo_ID = 1, repo_Name = ''r'', repo_URL = ''u'', repo_Sync = [],
       repo_Tag = ''v1'', repo_LastSync = 1, repo_CommitHash = ''aaaaaaa1'',
       repo_ZipFile = ''r-aaaaaaa.zip'', repo_Size = 10,
       repo_CreatedAt = 1, repo_UpdatedAt = 1\<rparr>]"
  by (simp add: ex_world1_def ex_state_def)

section \<open>What a run reports\<close>

lemma find_unique:
  "distinct (map f xs) \<Longrightarrow> p \<in> set xs \<Longrightarrow> find (\<lambda>x. f x = f p) xs = Some p"
  by (induction xs) (auto simp: image_iff)

lemma find_absent:
  "k \<notin> f ` set xs \<Longrightarrow> find (\<lambda>x. f x = k) xs = None"
  by (auto simp: find_None_iff)

text \<open>
  Claim C7, as amended. Let a run of \<open>syncRepo\<close> end without error, let its read of the
  repository's record not fail, and let repository names be unique in the store, as
  the schema demands. Then the run reports a change exactly when it built the artifact
  (no file of the artifact's name was on disk, so \<open>CreateZip\<close> ran and wrote the archive
  of the working copy) or the tag git reports differs from the tag in the repository's
  row of the store, or from the empty tag when the store has no row of the repository.
  In particular, with the file present and the tag changed, the run reports a change.
\<close>

theorem syncRepo_reports_changed:
  assumes run: "syncRepo cfg env r w = (w', Inr changed)"
    and head: "latest_commit env = Some (commitHash, tag)"
    and read: "\<not> getrepo_err env"
    and names: "distinct (map repo_Name (repos (store w)))"
  shows "(\<forall>p\<in>set (repos (store w)). repo_Name p = Name r \<longrightarrow>
            changed = (files w (zips_path cfg (zipFileName_of (Name r) commitHash)) = None
                       \<or> tag \<noteq> repo_Tag p))
       \<and> (Name r \<notin> repo_Name ` set (repos (store w)) \<longrightarrow>
            changed = (files w (zips_path cfg (zipFileName_of (Name r) commitHash)) = None
                       \<or> tag \<noteq> []))
       \<and> (files w (zips_path cfg (zipFileName_of (Name r) commitHash)) = None \<longrightarrow>
            (\<exists>w1. ensure_zip env (zips_path cfg (zipFileName_of (Name r) commitHash))
                     (prev_sync env r w) w = (w1, Inr (True, now_zip env))
                 \<and> files w1 = (files w)(zips_path cfg (zipFileName_of (Name r) commitHash)
                                 \<mapsto> map (\<lambda>e. (rel_path e, content e)) (filter included (tree env)))))
       \<and> (files w (zips_path cfg (zipFileName_of (Name r) commitHash)) \<noteq> None \<longrightarrow>
            ensure_zip env (zips_path cfg (zipFileName_of (Name r) commitHash))
              (prev_sync env r w) w = (w, Inr (False, prev_sync env r w)))
       \<and> (\<forall>p\<in>set (repos (store w)). repo_Name p = Name r
             \<and> files w (zips_path cfg (zipFileName_of (Name r) commitHash)) \<noteq> None
             \<and> tag \<noteq> repo_Tag p \<longrightarrow> changed)"
proof -
  let ?P = "zips_path cfg (zipFileName_of (Name r) commitHash)"
  from run obtain c t zc ls w1 w2 dbRepo where
    c: "latest_commit env = Some (c, t)"
    and ez: "ensure_zip env (zips_path cfg (zipFileName_of (Name r) c)) (prev_sync env r w) w
               = (w1, Inr (zc, ls))"
    and ch: "changed = (zc \<or> t \<noteq> prev_tag env r w)"
    by (rule syncRepo_success)
  from c head have [simp]: "c = commitHash" "t = tag" by simp_all
  from ez have ez': "ensure_zip env ?P (prev_sync env r w) w = (w1, Inr (zc, ls))" by simp
  note e = ensure_zip_success [OF ez']
  have rec: "prev_tag env r w = repo_Tag p" if "p \<in> set (repos (store w))" "repo_Name p = Name r" for p
  proof -
    from find_unique [OF names that(1)] that(2)
    have "GetRepoByName (Name r) (store w) = Some p" by (simp add: GetRepoByName_def)
    with read show ?thesis by (simp add: prev_tag_def read_prev_def)
  qed
  have norec: "prev_tag env r w = []" if "Name r \<notin> repo_Name ` set (repos (store w))"
  proof -
    from find_absent [OF that]
    have "GetRepoByName (Name r) (store w) = None" by (simp add: GetRepoByName_def)
    then show ?thesis by (simp add: prev_tag_def read_prev_def)
  qed
  have 1: "\<forall>p\<in>set (repos (store w)). repo_Name p = Name r \<longrightarrow>
            changed = (files w ?P = None \<or> tag \<noteq> repo_Tag p)"
    using ch e(3) rec by simp
  have 2: "Name r \<notin> repo_Name ` set (repos (store w)) \<longrightarrow>
            changed = (files w ?P = None \<or> tag \<noteq> [])"
    using ch e(3) norec by simp
  have 3: "files w ?P = None \<longrightarrow>
            (\<exists>w1. ensure_zip env ?P (prev_sync env r w) w = (w1, Inr (True, now_zip env))
                 \<and> files w1 = (files w)(?P \<mapsto> map (\<lambda>e. (rel_path e, content e))
                                                  (filter included (tree env))))"
    using ez' e(3) e(6) by auto
  have 4: "files w ?P \<noteq> None \<longrightarrow>
            ensure_zip env ?P (prev_sync env r w) w = (w, Inr (False, prev_sync env r w))"
    using ez' e(3) e(5) by auto
  from 1 have 5: "\<forall>p\<in>set (repos (store w)). repo_Name p = Name r
             \<and> files w ?P \<noteq> None \<and> tag \<noteq> repo_Tag p \<longrightarrow> changed"
    by simp
  from 1 2 3 4 5 show ?thesis by (intro conjI)
qed

theorem syncRepo_reports_changed_witness:
  "repos (store ex_world1) =
     [\<lparr>repo_ID = 1, repo_Name = ''r'', repo_URL = ''u'', repo_Sync = [],
       repo_Tag = ''v1'', repo_LastSync = 1, repo_CommitHash = ''aaaaaaa1'',
       repo_ZipFile = ''r-aaaaaaa.zip'', repo_Size = 10,
       repo_CreatedAt = 1, repo_UpdatedAt = 1\<rparr>]
   \<and> distinct (map repo_Name (repos (store ex_world1)))
   \<and> zips_path ex_cfg (zipFileName_of (Name ex_repo) ''aaaaaaa1'') = ''/d/zips/r-aaaaaaa.zip''
   \<and> files ex_world1 ''/d/zips/r-aaaaaaa.zip'' = Some [(''a'', ''x'')]
   \<and> latest_commit (ex_env ''aaaaaaa1'' ''v2'' 2) = Some (''aaaaaaa1'', ''v2'')
   \<and> \<not> getrepo_err (ex_env ''aaaaaaa1'' ''v2'' 2)
   \<and> syncRepo ex_cfg (ex_env ''aaaaaaa1'' ''v2'' 2) ex_repo ex_world1 =
       (ex_state ''v2'' ''aaaaaaa1'' 1 2
          [ex_row 1 ''v1'' ''aaaaaaa1'' ''r-aaaaaaa.zip'' 1 0,
           ex_row 2 ''v2'' ''aaaaaaa1'' ''r-aaaaaaa.zip'' 1 0] [''r-aaaaaaa.zip''], Inr True)
   \<and> True = (files ex_world1 (zips_path ex_cfg (zipFileName_of (Name ex_repo) ''aaaaaaa1'')) = None
             \<or> ''v2'' \<noteq> ''v1'')
   \<and> latest_commit (ex_env ''aaaaaaa1'' ''v1'' 2) = Some (''aaaaaaa1'', ''v1'')
   \<and> \<not> getrepo_err (ex_env ''aaaaaaa1'' ''v1'' 2)
   \<and> syncRepo ex_cfg (ex_env ''aaaaaaa1'' ''v1'' 2) ex_repo ex_world1 =
       (ex_state ''v1'' ''aaaaaaa1'' 1 2
          [ex_row 1 ''v1'' ''aaaaaaa1'' ''r-aaaaaaa.zip'' 1 0] [''r-aaaaaaa.zip''], Inr False)
   \<and> False = (files ex_world1 (zips_path ex_cfg (zipFileName_of (Name ex_repo) ''aaaaaaa1'')) = None
              \<or> ''v1'' \<noteq> ''v1'')
   \<and> repos (store ex_world) = []
   \<and> files ex_world ''/d/zips/r-aaaaaaa.zip'' = None
   \<and> syncRepo ex_cfg (ex_env ''aaaaaaa1'' ''v1'' 1) ex_repo ex_world = (ex_world1, Inr True)
   \<and> True = (files ex_world (zips_path ex_cfg (zipFileName_of (Name ex_repo) ''aaaaaaa1'')) = None
             \<or> ''v1'' \<noteq> [])"
proof -
  let ?p = "\<lparr>repo_ID = 1, repo_Name = ''r'', repo_URL = ''u'', repo_Sync = [],
       repo_Tag = ''v1'', repo_LastSync = 1, repo_CommitHash = ''aaaaaaa1'',
       repo_ZipFile = ''r-aaaaaaa.zip'', repo_Size = 10,
       repo_CreatedAt = 1, repo_UpdatedAt = 1\<rparr>"
  let ?P = "zips_path ex_cfg (zipFileName_of (Name ex_repo) ''aaaaaaa1'')"
  have nm: "distinct (map repo_Name (repos (store ex_world1)))"
    by (simp add: ex_world1_repos)
  have p: "?p \<in> set (repos (store ex_world1))" "repo_Name ?p = Name ex_repo" "repo_Tag ?p = ''v1''"
    by (simp_all add: ex_world1_repos ex_repo_def)
  have P: "?P = ''/d/zips/r-aaaaaaa.zip''"
    by (simp add: zips_path_def filepath_Join_def zipFileName_of_def ex_cfg_def ex_repo_def)
  have f: "files ex_world1 ''/d/zips/r-aaaaaaa.zip'' = Some [(''a'', ''x'')]"
    by (simp add: ex_world1_def ex_state_def)
  have h2: "latest_commit (ex_env ''aaaaaaa1'' ''v2'' 2) = Some (''aaaaaaa1'', ''v2'')"
    and r2: "\<not> getrepo_err (ex_env ''aaaaaaa1'' ''v2'' 2)"
    and h1: "latest_commit (ex_env ''aaaaaaa1'' ''v1'' 2) = Some (''aaaaaaa1'', ''v1'')"
    and r1: "\<not> getrepo_err (ex_env ''aaaaaaa1'' ''v1'' 2)"
    by (simp_all add: ex_env_def)
  from syncRepo_reports_changed [OF ex_retag h2 r2 nm]
  have "\<forall>p\<in>set (repos (store ex_world1)). repo_Name p = Name ex_repo \<longrightarrow>
          True = (files ex_world1 ?P = None \<or> ''v2'' \<noteq> repo_Tag p)"
    by (elim conjE)
  from bspec [OF this p(1)] p(2) p(3)
  have a: "True = (files ex_world1 ?P = None \<or> ''v2'' \<noteq> ''v1'')" by simp
  from syncRepo_reports_changed [OF ex_rerun1 h1 r1 nm]
  have "\<forall>p\<in>set (repos (store ex_world1)). repo_Name p = Name ex_repo \<longrightarrow>
          False = (files ex_world1 ?P = None \<or> ''v1'' \<noteq> repo_Tag p)"
    by (elim conjE)
  from bspec [OF this p(1)] p(2) p(3)
  have b: "False = (files ex_world1 ?P = None \<or> ''v1'' \<noteq> ''v1'')" by simp
  have e: "repos (store ex_world) = []" "files ex_world ''/d/zips/r-aaaaaaa.zip'' = None"
    by (simp_all add: ex_world_def empty_db_def)
  have h0: "latest_commit (ex_env ''aaaaaaa1'' ''v1'' 1) = Some (''aaaaaaa1'', ''v1'')"
    and r0: "\<not> getrepo_err (ex_env ''aaaaaaa1'' ''v1'' 1)"
    by (simp_all add: ex_env_def)
  have n0: "distinct (map repo_Name (repos (store ex_world)))"
    and a0: "Name ex_repo \<notin> repo_Name ` set (repos (store ex_world))"
    by (simp_all add: e)
  from syncRepo_reports_changed [OF ex_run1 h0 r0 n0, THEN conjunct2, THEN conjunct1] a0
  have c: "True = (files ex_world ?P = None \<or> ''v1'' \<noteq> [])"
    by (rule mp)
  from ex_world1_repos nm P f h2 r2 ex_retag a h1 r1 ex_rerun1 b e ex_run1 c show ?thesis
    by (intro conjI)
qed

text \<open>
  Claim C7 as stated fails when the record is not read: \<open>syncRepo\<close> takes any error of
  \<open>GetRepoByName\<close> for a missing record and compares with the empty tag. After the first
  run of the example the store records the tag \<open>v1\<close> and the artifact is on disk. A run
  at the same commit and tag that cannot read the record builds nothing, and reports a
  change.
\<close>

theorem syncRepo_reports_changed_counterexample:
  "map (\<lambda>p. (repo_Name p, repo_Tag p)) (repos (store ex_world1)) = [(''r'', ''v1'')]
   \<and> Name ex_repo = ''r''
   \<and> latest_commit ((ex_env ''aaaaaaa1'' ''v1'' 2)\<lparr>getrepo_err := True\<rparr>) = Some (''aaaaaaa1'', ''v1'')
   \<and> zips_path ex_cfg (zipFileName_of (Name ex_repo) ''aaaaaaa1'') = ''/d/zips/r-aaaaaaa.zip''
   \<and> files ex_world1 ''/d/zips/r-aaaaaaa.zip'' = Some [(''a'', ''x'')]
   \<and> ensure_zip ((ex_env ''aaaaaaa1'' ''v1'' 2)\<lparr>getrepo_err := True\<rparr>) ''/d/zips/r-aaaaaaa.zip'' 2 ex_world1
       = (ex_world1, Inr (False, 2))
   \<and> syncRepo ex_cfg ((ex_env ''aaaaaaa1'' ''v1'' 2)\<lparr>getrepo_err := True\<rparr>) ex_repo ex_world1 =
       (ex_state ''v1'' ''aaaaaaa1'' 2 2
          [ex_row 1 ''v1'' ''aaaaaaa1'' ''r-aaaaaaa.zip'' 2 0] [''r-aaaaaaa.zip''], Inr True)"
proof -
  have "map (\<lambda>p. (repo_Name p, repo_Tag p)) (repos (store ex_world1)) = [(''r'', ''v1'')]"
    "Name ex_repo = ''r''"
    "latest_commit ((ex_env ''aaaaaaa1'' ''v1'' 2)\<lparr>getrepo_err := True\<rparr>) = Some (''aaaaaaa1'', ''v1'')"
    "zips_path ex_cfg (zipFileName_of (Name ex_repo) ''aaaaaaa1'') = ''/d/zips/r-aaaaaaa.zip''"
    "files ex_world1 ''/d/zips/r-aaaaaaa.zip'' = Some [(''a'', ''x'')]"
    "ensure_zip ((ex_env ''aaaaaaa1'' ''v1'' 2)\<lparr>getrepo_err := True\<rparr>) ''/d/zips/r-aaaaaaa.zip'' 2 ex_world1
       = (ex_world1, Inr (False, 2))"
    by (simp_all add: ex_world1_def ex_state_def ex_repo_def ex_env_def ex_cfg_def
          zips_path_def filepath_Join_def zipFileName_of_def ensure_zip_def)
  with ex_rerun1_unread show ?thesis by (intro conjI)
qed

section \<open>The artifact's name and place\<close>

text \<open>
  Claim C9. In a run of \<open>syncRepo\<close> that ends without error, the artifact's file name
  is the repository name, a hyphen, the first seven characters of the commit
  identifier git reports, and \<open>.zip\<close>; the file is at that name under \<open>zips\<close> under the
  storage path. When the run packages (no file was at that place), \<open>CreateZip\<close> writes
  the archive to exactly that place; the run adds no other file; and the repository row
  records that file name with the commit.
\<close>

theorem artifact_name_and_place:
  assumes run: "syncRepo cfg env r w = (w', Inr changed)"
    and head: "latest_commit env = Some (commitHash, tag)"
  shows "zipFileName_of (Name r) commitHash = Name r @ ''-'' @ take 7 commitHash @ ''.zip''
       \<and> length (take 7 commitHash) = 7
       \<and> zips_path cfg (zipFileName_of (Name r) commitHash) =
           (if Storage_Path cfg = [] then ''zips/'' @ Name r @ ''-'' @ take 7 commitHash @ ''.zip''
            else Storage_Path cfg @ ''/zips/'' @ Name r @ ''-'' @ take 7 commitHash @ ''.zip'')
       \<and> (files w (zips_path cfg (zipFileName_of (Name r) commitHash)) = None \<longrightarrow>
            (\<exists>w1. ensure_zip env (zips_path cfg (zipFileName_of (Name r) commitHash))
                     (prev_sync env r w) w = (w1, Inr (True, now_zip env))
                 \<and> files w1 = (files w)(zips_path cfg (zipFileName_of (Name r) commitHash)
                                 \<mapsto> map (\<lambda>e. (rel_path e, content e)) (filter included (tree env)))))
       \<and> dom (files w') \<subseteq> insert (zips_path cfg (zipFileName_of (Name r) commitHash)) (dom (files w))
       \<and> (\<exists>row. GetRepoByName (Name r) (store w') = Some row
                 \<and> repo_ZipFile row = Name r @ ''-'' @ take 7 commitHash @ ''.zip''
                 \<and> repo_CommitHash row = commitHash)"
proof -
  let ?Z = "zipFileName_of (Name r) commitHash"
  let ?P = "zips_path cfg ?Z"
  from run obtain c t zc ls w1 w2 dbRepo where
    c: "latest_commit env = Some (c, t)"
    and len: "7 \<le> length c"
    and ez: "ensure_zip env (zips_path cfg (zipFileName_of (Name r) c)) (prev_sync env r w) w
               = (w1, Inr (zc, ls))"
    and wm: "write_meta env r t c (zipFileName_of (Name r) c) ls w1 = (w2, Inr dbRepo)"
    and rt: "retention cfg env (repo_ID dbRepo)
               (drop_moved cfg r (prev_tag env r w) (prev_commit env r w) t c w2) = (w', True)"
    by (rule syncRepo_success)
  from c head have [simp]: "c = commitHash" "t = tag" by simp_all
  from ez have ez': "ensure_zip env ?P (prev_sync env r w) w = (w1, Inr (zc, ls))" by simp
  note e = ensure_zip_success [OF ez']
  have 1: "?Z = Name r @ ''-'' @ take 7 commitHash @ ''.zip''"
    by (simp add: zipFileName_of_def)
  have 2: "length (take 7 commitHash) = 7" using len by simp
  have 3: "?P = (if Storage_Path cfg = [] then ''zips/'' @ Name r @ ''-'' @ take 7 commitHash @ ''.zip''
            else Storage_Path cfg @ ''/zips/'' @ Name r @ ''-'' @ take 7 commitHash @ ''.zip'')"
    by (simp add: join_zips zipFileName_of_def)
  have 4: "files w ?P = None \<longrightarrow>
            (\<exists>w1. ensure_zip env ?P (prev_sync env r w) w = (w1, Inr (True, now_zip env))
                 \<and> files w1 = (files w)(?P \<mapsto> map (\<lambda>e. (rel_path e, content e))
                                                  (filter included (tree env))))"
    using ez' e(3) e(6) by auto
  from wm obtain sz where
    f2: "files w2 = files w1"
    and s2: "store w2 = fst (AddVersion \<lparr>ver_ID = 0, ver_RepoID = repo_ID dbRepo, ver_Tag = tag,
                            ver_CommitHash = commitHash, ver_ZipFile = ?Z,
                            ver_Size = sz, ver_CreatedAt = ls, ver_Deleted = 0\<rparr>
                 (fst (UpsertRepo (now_upsert env)
                     \<lparr>repo_ID = 0, repo_Name = Name r, repo_URL = URL r, repo_Sync = Sync r,
                      repo_Tag = tag, repo_LastSync = ls, repo_CommitHash = commitHash,
                      repo_ZipFile = ?Z, repo_Size = sz,
                      repo_CreatedAt = 0, repo_UpdatedAt = 0\<rparr> (store w1))))"
    by (rule write_meta_success) simp
  have "dom (files w1) \<subseteq> insert ?P (dom (files w))"
  proof (cases "files w ?P = None")
    case True
    with e(6) show ?thesis by auto
  next
    case False
    with e(5) show ?thesis by auto
  qed
  with retention_frame(1) [OF rt] drop_moved_frame(3) [of cfg r "prev_tag env r w" "prev_commit env r w" tag commitHash w2] f2
  have 5: "dom (files w') \<subseteq> insert ?P (dom (files w))"
    by auto
  let ?repo = "\<lparr>repo_ID = 0, repo_Name = Name r, repo_URL = URL r, repo_Sync = Sync r,
                      repo_Tag = tag, repo_LastSync = ls, repo_CommitHash = commitHash,
                      repo_ZipFile = ?Z, repo_Size = sz,
                      repo_CreatedAt = 0, repo_UpdatedAt = 0\<rparr>"
  from GetRepoByName_UpsertRepo [of ?repo "now_upsert env" "store w1"]
  obtain row where row: "GetRepoByName (Name r) (fst (UpsertRepo (now_upsert env) ?repo (store w1))) = Some row"
    "repo_ZipFile row = ?Z" "repo_CommitHash row = commitHash"
    by auto
  have "repos (store w') = repos (fst (UpsertRepo (now_upsert env) ?repo (store w1)))"
    using retention_frame(3) [OF rt] drop_moved_frame(1) [of cfg r "prev_tag env r w" "prev_commit env r w" tag commitHash w2] s2
    by (simp add: repos_AddVersion)
  with row have 6: "\<exists>row. GetRepoByName (Name r) (store w') = Some row
                 \<and> repo_ZipFile row = Name r @ ''-'' @ take 7 commitHash @ ''.zip''
                 \<and> repo_CommitHash row = commitHash"
    by (simp add: GetRepoByName_def zipFileName_of_def)
  from 1 2 3 4 5 6 show ?thesis by blast
qed

theorem artifact_name_and_place_witness:
  "syncRepo ex_cfg (ex_env ''aaaaaaa1'' ''v1'' 1) ex_repo ex_world = (ex_world1, Inr True)
   \<and> latest_commit (ex_env ''aaaaaaa1'' ''v1'' 1) = Some (''aaaaaaa1'', ''v1'')
   \<and> files ex_world ''/d/zips/r-aaaaaaa.zip'' = None
   \<and> zips_path ex_cfg (zipFileName_of (Name ex_repo) ''aaaaaaa1'') = ''/d/zips/r-aaaaaaa.zip''
   \<and> dom (files ex_world1) \<subseteq> insert ''/d/zips/r-aaaaaaa.zip'' (dom (files ex_world))"
proof -
  have h: "latest_commit (ex_env ''aaaaaaa1'' ''v1'' 1) = Some (''aaaaaaa1'', ''v1'')"
    by (simp add: ex_env_def)
  from artifact_name_and_place [OF ex_run1 h] ex_run1 h show ?thesis
    by (simp add: ex_world_def ex_cfg_def ex_repo_def zips_path_def filepath_Join_def
          zipFileName_of_def)
qed

section \<open>The constraints of the schema\<close>

lemma store_ok_empty: "store_ok empty_db"
  by (simp add: store_ok_def empty_db_def)

lemma map_upd_same: "(\<And>x. g (f x) = g x) \<Longrightarrow> map g (map f xs) = map g xs"
  by (induction xs) auto

lemma list_all_upd_same: "(\<And>x. P (f x) = P x) \<Longrightarrow> list_all P (map f xs) = list_all P xs"
  by (induction xs) auto

lemma store_ok_UpsertRepo: "store_ok d \<Longrightarrow> store_ok (fst (UpsertRepo now repo d))"
proof (cases "find (\<lambda>x. repo_Name x = repo_Name repo) (repos d)")
  case None
  assume ok: "store_ok d"
  from None have "repo_Name repo \<notin> repo_Name ` set (repos d)"
    by (auto simp: find_None_iff)
  with ok None show ?thesis
    by (auto simp: store_ok_def UpsertRepo_def Let_def list_all_iff)
next
  case (Some old)
  assume ok: "store_ok d"
  let ?f = "\<lambda>x. if repo_Name x = repo_Name repo
                 then x\<lparr>repo_Tag := repo_Tag repo,
                        repo_LastSync := repo_LastSync repo,
                        repo_CommitHash := repo_CommitHash repo,
                        repo_ZipFile := repo_ZipFile repo,
                        repo_Size := repo_Size repo,
                        repo_UpdatedAt := now\<rparr>
                 else x"
  have a: "map repo_ID (map ?f (repos d)) = map repo_ID (repos d)"
    by (rule map_upd_same) simp
  have b: "map repo_Name (map ?f (repos d)) = map repo_Name (repos d)"
    by (rule map_upd_same) simp
  have c: "list_all (\<lambda>x. repo_ID x \<le> seq_repos d) (map ?f (repos d))
           = list_all (\<lambda>x. repo_ID x \<le> seq_repos d) (repos d)"
    by (rule list_all_upd_same) simp
  from ok Some a b c show ?thesis
    unfolding store_ok_def UpsertRepo_def
    by (simp del: map_map)
qed


lemma store_ok_AddVersion: "store_ok d \<Longrightarrow> store_ok (fst (AddVersion v d))"
proof (cases "find (same_key v) (versions d)")
  case None
  assume ok: "store_ok d"
  from None have "(ver_RepoID v, ver_Tag v) \<notin> (\<lambda>v. (ver_RepoID v, ver_Tag v)) ` set (versions d)"
    by (auto simp: find_None_iff same_key_def)
  with ok None show ?thesis
    by (auto simp: store_ok_def AddVersion_def Let_def list_all_iff)
next
  case (Some old)
  assume ok: "store_ok d"
  let ?f = "\<lambda>x. if same_key v x
                 then x\<lparr>ver_CommitHash := ver_CommitHash v,
                        ver_ZipFile := ver_ZipFile v,
                        ver_Size := ver_Size v,
                        ver_CreatedAt := ver_CreatedAt v\<rparr>
                 else x"
  have a: "map ver_ID (map ?f (versions d)) = map ver_ID (versions d)"
    by (rule map_upd_same) simp
  have b: "map (\<lambda>v. (ver_RepoID v, ver_Tag v)) (map ?f (versions d))
           = map (\<lambda>v. (ver_RepoID v, ver_Tag v)) (versions d)"
    by (rule map_upd_same) simp
  have c: "list_all (\<lambda>x. ver_ID x \<le> seq_versions d) (map ?f (versions d))
           = list_all (\<lambda>x. ver_ID x \<le> seq_versions d) (versions d)"
    by (rule list_all_upd_same) simp
  from ok Some a b c show ?thesis
    unfolding store_ok_def AddVersion_def
    by (simp del: map_map)
qed


lemma store_ok_Increment: "store_ok d \<Longrightarrow> store_ok (IncrementPackageListVersion now d)"
  by (auto simp: store_ok_def IncrementPackageListVersion_def Let_def list_all_iff)

section \<open>Retention\<close>

lemma mark_all_empty: "mark_all {} vs = vs"
  by (simp add: mark_all_def)

lemma mark_all_insert:
  "mark_all S (versions (MarkVersionAsDeleted i d)) = mark_all (insert i S) (versions d)"
  by (auto simp: mark_all_def MarkVersionAsDeleted_def)

lemma retire_True:
  "retire cfg fails vs w = (w', True) \<Longrightarrow>
     versions (store w') = mark_all (ver_ID ` set vs) (versions (store w))
     \<and> files w' = (\<lambda>p. if p \<in> (\<lambda>v. zips_path cfg (ver_ZipFile v)) ` set vs then None
                        else files w p)"
proof (induction vs arbitrary: w)
  case Nil
  then show ?case by (simp add: mark_all_empty)
next
  case (Cons v vs)
  let ?w1 = "os_Remove (zips_path cfg (ver_ZipFile v)) w"
  let ?w2 = "?w1\<lparr>store := MarkVersionAsDeleted (ver_ID v) (store ?w1)\<rparr>"
  from Cons.prems have r: "retire cfg fails vs ?w2 = (w', True)"
    by (simp add: Let_def split: if_splits)
  from Cons.IH [OF r] show ?case
    by (auto simp: mark_all_insert os_Remove_def)
qed

lemma filter_mark_all:
  "filter (\<lambda>x. ver_RepoID x = i \<and> ver_Deleted x = 0) (mark_all S vs)
   = filter (\<lambda>x. ver_ID x \<notin> S) (filter (\<lambda>x. ver_RepoID x = i \<and> ver_Deleted x = 0) vs)"
  by (induction vs) (auto simp: mark_all_def)

lemma undeleted_mark_all:
  "undeleted_of i (d\<lparr>versions := mark_all S (versions d)\<rparr>)
   = filter (\<lambda>x. ver_ID x \<notin> S) (undeleted_of i d)"
  by (simp add: undeleted_of_def by_created_desc_def filter_mark_all filter_sort)

lemma filter_not_in_drop:
  assumes "distinct (map f xs)"
  shows "filter (\<lambda>x. f x \<notin> f ` set (drop n xs)) xs = take n xs"
proof -
  from assms have d: "distinct (map f (take n xs @ drop n xs))" by simp
  then have a: "\<And>x. x \<in> set (take n xs) \<Longrightarrow> f x \<notin> f ` set (drop n xs)"
    by (auto simp del: append_take_drop_id)
  have "filter (\<lambda>x. f x \<notin> f ` set (drop n xs)) (take n xs @ drop n xs) = take n xs"
    unfolding filter_append using a by (simp add: filter_id_conv filter_empty_conv del: append_take_drop_id)
  then show ?thesis by simp
qed

lemma distinct_ids_undeleted:
  assumes "distinct (map ver_ID (versions d))"
  shows "distinct (map ver_ID (undeleted_of i d))"
proof -
  from assms have "distinct (versions d)" "inj_on ver_ID (set (versions d))"
    by (simp_all add: distinct_map)
  then have "distinct (undeleted_of i d)" "inj_on ver_ID (set (undeleted_of i d))"
    by (auto simp: undeleted_of_def by_created_desc_def intro: inj_on_subset)
  then show ?thesis by (simp add: distinct_map)
qed

lemma set_undeleted: "set (undeleted_of i d) \<subseteq> set (versions d)"
  by (auto simp: undeleted_of_def by_created_desc_def)

lemma undeleted_versions_cong:
  "versions d' = versions d \<Longrightarrow> undeleted_of i d' = undeleted_of i d"
  by (simp add: undeleted_of_def)

lemma undeleted_marked:
  "versions d' = mark_all S (versions d) \<Longrightarrow>
     undeleted_of i d' = filter (\<lambda>x. ver_ID x \<notin> S) (undeleted_of i d)"
  by (simp add: undeleted_of_def by_created_desc_def filter_mark_all filter_sort)

lemma exempt_iff: "exempt vs = (\<exists>v. vs = [v] \<and> ver_Tag v = [])"
  by (auto simp: exempt_def split: list.splits)

lemma retention_True:
  assumes d: "distinct (map ver_ID (versions (store w)))"
    and r: "retention cfg env i w = (w', True)"
  shows "exempt (drop 3 (undeleted_of i (store w))) \<Longrightarrow> w' = w"
    and "\<not> exempt (drop 3 (undeleted_of i (store w))) \<Longrightarrow>
           undeleted_of i (store w') = take 3 (undeleted_of i (store w))"
    and "\<not> exempt (drop 3 (undeleted_of i (store w))) \<Longrightarrow>
           v \<in> set (drop 3 (undeleted_of i (store w))) \<Longrightarrow>
           files w' (zips_path cfg (ver_ZipFile v)) = None
           \<and> v\<lparr>ver_Deleted := 1\<rparr> \<in> set (versions (store w'))"
proof -
  let ?live = "undeleted_of i (store w)"
  let ?older = "drop 3 ?live"
  show "exempt ?older \<Longrightarrow> w' = w"
    using r by (simp add: retention_def GetOlderThan3LatestUnDeletedVersions_def split: if_splits)
  assume ne: "\<not> exempt ?older"
  with r have "retire cfg (mark_err env) ?older w = (w', True)"
    by (simp add: retention_def GetOlderThan3LatestUnDeletedVersions_def split: if_splits)
  from retire_True [OF this]
  have vs: "versions (store w') = mark_all (ver_ID ` set ?older) (versions (store w))"
    and fs: "files w' = (\<lambda>p. if p \<in> (\<lambda>v. zips_path cfg (ver_ZipFile v)) ` set ?older then None
                        else files w p)"
    by simp_all
  from undeleted_marked [OF vs, of i]
  show "undeleted_of i (store w') = take 3 ?live"
    by (simp add: filter_not_in_drop [OF distinct_ids_undeleted [OF d]])
  assume v: "v \<in> set ?older"
  then have "v \<in> set ?live" by (rule in_set_dropD)
  with set_undeleted have "v \<in> set (versions (store w))" by blast
  with v have "v\<lparr>ver_Deleted := 1\<rparr> \<in> set (versions (store w'))"
    unfolding vs mark_all_def by force
  moreover from v fs have "files w' (zips_path cfg (ver_ZipFile v)) = None" by auto
  ultimately show "files w' (zips_path cfg (ver_ZipFile v)) = None
           \<and> v\<lparr>ver_Deleted := 1\<rparr> \<in> set (versions (store w'))" by simp
qed

lemma store_ok_UpsertRepo_pair:
  "UpsertRepo now repo d = (d', x) \<Longrightarrow> store_ok d \<Longrightarrow> store_ok d'"
  using store_ok_UpsertRepo [of d now repo] by simp

lemma store_ok_AddVersion_pair:
  "AddVersion v d = (d', x) \<Longrightarrow> store_ok d \<Longrightarrow> store_ok d'"
  using store_ok_AddVersion [of d v] by simp

lemma write_meta_store_ok:
  assumes "store_ok (store w)" "write_meta env r t c z ls w = (w2, res)"
  shows "store_ok (store w2)"
  using assms
  by (auto simp: write_meta_def Let_def
           split: option.splits if_splits prod.splits
           dest: store_ok_UpsertRepo_pair store_ok_AddVersion_pair)



lemma ex_run2:
  "syncRepo ex_cfg (ex_env ''bbbbbbb1'' ''v2'' 2) ex_repo ex_world1 = (ex_world2, Inr True)"
  by (simp add: eval_defs ex_world1_def ex_world2_def fun_eq_iff)

lemma ex_run3:
  "syncRepo ex_cfg (ex_env ''ccccccc1'' ''v3'' 3) ex_repo ex_world2 = (ex_world3, Inr True)"
  by (simp add: eval_defs ex_world2_def ex_world3_def fun_eq_iff)

lemma ex_run4:
  "syncRepo ex_cfg (ex_env ''aaaaaaa1'' ''v4'' 4) ex_repo ex_world3 = (ex_world4, Inr True)"
  by (simp add: eval_defs ex_world3_def ex_world4_def fun_eq_iff)

lemma ex_run5:
  "syncRepo ex_cfg (ex_env ''aaaaaaa1'' ''v4'' 5) ex_repo ex_world4 = (ex_world5, Inr True)"
  by (simp add: eval_defs ex_world4_def ex_world5_def fun_eq_iff)

text \<open>
  Claim C2. Take a run of \<open>syncRepo\<close> that ends without error, on a database that meets
  the schema's constraints, and let \<open>w2\<close> be the state in which its retention pass
  starts (after the repository and version rows are written). Order the repository's
  rows that are not deleted by \<open>created_at\<close>, latest first. If the rows after the third
  are exactly one row with the empty tag, the pass changes nothing. Otherwise the rows
  not deleted after the run are exactly the first three, and every row after the third
  has its file removed from disk and is marked deleted. Either way at most three rows
  are left undeleted, or four of which the last has the empty tag.
\<close>

theorem retention_after_sync:
  assumes ok: "store_ok (store w)"
    and run: "syncRepo cfg env r w = (w', Inr changed)"
    and head: "latest_commit env = Some (commitHash, tag)"
  shows "\<exists>w1 zipCreated lastSync wm dbRepo w2.
      ensure_zip env (zips_path cfg (zipFileName_of (Name r) commitHash)) (prev_sync env r w) w
        = (w1, Inr (zipCreated, lastSync))
    \<and> write_meta env r tag commitHash (zipFileName_of (Name r) commitHash) lastSync w1
        = (wm, Inr dbRepo)
    \<and> w2 = drop_moved cfg r (prev_tag env r w) (prev_commit env r w) tag commitHash wm
    \<and> retention cfg env (repo_ID dbRepo) w2 = (w', True)
    \<and> (\<exists>row. GetRepoByName (Name r) (store w') = Some row \<and> repo_ID row = repo_ID dbRepo)
    \<and> ((\<exists>v. drop 3 (undeleted_of (repo_ID dbRepo) (store w2)) = [v] \<and> ver_Tag v = [])
          \<longrightarrow> w' = w2)
    \<and> (\<not> (\<exists>v. drop 3 (undeleted_of (repo_ID dbRepo) (store w2)) = [v] \<and> ver_Tag v = [])
          \<longrightarrow> undeleted_of (repo_ID dbRepo) (store w')
                = take 3 (undeleted_of (repo_ID dbRepo) (store w2))
            \<and> (\<forall>v\<in>set (drop 3 (undeleted_of (repo_ID dbRepo) (store w2))).
                  files w' (zips_path cfg (ver_ZipFile v)) = None
                  \<and> v\<lparr>ver_Deleted := 1\<rparr> \<in> set (versions (store w'))))
    \<and> (length (undeleted_of (repo_ID dbRepo) (store w')) \<le> 3
        \<or> length (undeleted_of (repo_ID dbRepo) (store w')) = 4
          \<and> ver_Tag (last (undeleted_of (repo_ID dbRepo) (store w'))) = [])"
proof -
  from run obtain c t zc ls w1 wm dbRepo where
    c: "latest_commit env = Some (c, t)"
    and ez: "ensure_zip env (zips_path cfg (zipFileName_of (Name r) c)) (prev_sync env r w) w
               = (w1, Inr (zc, ls))"
    and wm: "write_meta env r t c (zipFileName_of (Name r) c) ls w1 = (wm, Inr dbRepo)"
    and rt: "retention cfg env (repo_ID dbRepo)
               (drop_moved cfg r (prev_tag env r w) (prev_commit env r w) t c wm) = (w', True)"
    by (rule syncRepo_success)
  from c head have [simp]: "c = commitHash" "t = tag" by simp_all
  let ?w2 = "drop_moved cfg r (prev_tag env r w) (prev_commit env r w) tag commitHash wm"
  let ?i = "repo_ID dbRepo"
  let ?live = "undeleted_of ?i (store ?w2)"
  from ensure_zip_success(1) [OF ez] ok have "store_ok (store w1)" by simp
  with wm have "store_ok (store wm)" by (rule write_meta_store_ok [rotated])
  then have d: "distinct (map ver_ID (versions (store ?w2)))"
    by (simp add: drop_moved_frame store_ok_def)
  from rt have rt': "retention cfg env ?i ?w2 = (w', True)" by simp
  note R = retention_True [OF d rt']
  from wm obtain sz where
    db: "dbRepo = snd (UpsertRepo (now_upsert env)
                     \<lparr>repo_ID = 0, repo_Name = Name r, repo_URL = URL r, repo_Sync = Sync r,
                      repo_Tag = tag, repo_LastSync = ls, repo_CommitHash = commitHash,
                      repo_ZipFile = zipFileName_of (Name r) commitHash, repo_Size = sz,
                      repo_CreatedAt = 0, repo_UpdatedAt = 0\<rparr> (store w1))"
    and s2: "store wm = fst (AddVersion \<lparr>ver_ID = 0, ver_RepoID = repo_ID dbRepo, ver_Tag = tag,
                            ver_CommitHash = commitHash, ver_ZipFile = zipFileName_of (Name r) commitHash,
                            ver_Size = sz, ver_CreatedAt = ls, ver_Deleted = 0\<rparr>
                 (fst (UpsertRepo (now_upsert env)
                     \<lparr>repo_ID = 0, repo_Name = Name r, repo_URL = URL r, repo_Sync = Sync r,
                      repo_Tag = tag, repo_LastSync = ls, repo_CommitHash = commitHash,
                      repo_ZipFile = zipFileName_of (Name r) commitHash, repo_Size = sz,
                      repo_CreatedAt = 0, repo_UpdatedAt = 0\<rparr> (store w1))))"
    by (rule write_meta_success) simp
  let ?repo = "\<lparr>repo_ID = 0, repo_Name = Name r, repo_URL = URL r, repo_Sync = Sync r,
                      repo_Tag = tag, repo_LastSync = ls, repo_CommitHash = commitHash,
                      repo_ZipFile = zipFileName_of (Name r) commitHash, repo_Size = sz,
                      repo_CreatedAt = 0, repo_UpdatedAt = 0\<rparr>"
  from GetRepoByName_UpsertRepo [of ?repo "now_upsert env" "store w1"] db
  obtain row where row: "GetRepoByName (Name r) (fst (UpsertRepo (now_upsert env) ?repo (store w1))) = Some row"
    "repo_ID row = repo_ID dbRepo"
    by auto
  have "repos (store w') = repos (fst (UpsertRepo (now_upsert env) ?repo (store w1)))"
    using retention_frame(3) [OF rt'] s2
    by (simp add: repos_AddVersion drop_moved_frame)
  with row have 5: "\<exists>row. GetRepoByName (Name r) (store w') = Some row \<and> repo_ID row = ?i"
    by (simp add: GetRepoByName_def)
  have 6: "(\<exists>v. drop 3 ?live = [v] \<and> ver_Tag v = []) \<longrightarrow> w' = ?w2"
    using R(1) by (simp add: exempt_iff)
  have 7: "\<not> (\<exists>v. drop 3 ?live = [v] \<and> ver_Tag v = [])
          \<longrightarrow> undeleted_of ?i (store w') = take 3 ?live
            \<and> (\<forall>v\<in>set (drop 3 ?live).
                  files w' (zips_path cfg (ver_ZipFile v)) = None
                  \<and> v\<lparr>ver_Deleted := 1\<rparr> \<in> set (versions (store w')))"
    using R(2) R(3) by (simp add: exempt_iff)
  have 8: "length (undeleted_of ?i (store w')) \<le> 3
        \<or> length (undeleted_of ?i (store w')) = 4
          \<and> ver_Tag (last (undeleted_of ?i (store w'))) = []"
  proof (cases "\<exists>v. drop 3 ?live = [v] \<and> ver_Tag v = []")
    case True
    then obtain v where v: "drop 3 ?live = [v]" "ver_Tag v = []" by blast
    from True 6 have e: "w' = ?w2" by simp
    from v(1) have "length (drop 3 ?live) = 1" by simp
    then have l: "length ?live = 4" by simp
    have "last ?live = last (drop 3 ?live)" using l by (simp add: last_drop)
    with v l e show ?thesis by simp
  next
    case False
    with 7 show ?thesis by simp
  qed
  from ez have 1: "ensure_zip env (zips_path cfg (zipFileName_of (Name r) commitHash))
                     (prev_sync env r w) w = (w1, Inr (zc, ls))" by simp
  from wm have 2: "write_meta env r tag commitHash (zipFileName_of (Name r) commitHash) ls w1
                     = (wm, Inr dbRepo)" by simp
  have 3: "?w2 = ?w2" by (rule refl)
  show ?thesis
    by (rule exI [of _ w1], rule exI [of _ zc], rule exI [of _ ls], rule exI [of _ wm],
        rule exI [of _ dbRepo], rule exI [of _ ?w2], intro conjI)
       (rule 1 2 3 rt' 5 6 7 8)+
qed


lemma ex_world3_ok: "store_ok (store ex_world3)"
  by (simp add: ex_world3_def ex_state_def ex_row_def store_ok_def)

theorem retention_after_sync_witness:
  "store_ok (store ex_world3)
   \<and> syncRepo ex_cfg (ex_env ''aaaaaaa1'' ''v4'' 4) ex_repo ex_world3 = (ex_world4, Inr True)
   \<and> latest_commit (ex_env ''aaaaaaa1'' ''v4'' 4) = Some (''aaaaaaa1'', ''v4'')
   \<and> map ver_ID (undeleted_of 1 (store ex_world3)) = [3, 2, 1]
   \<and> map ver_ID (undeleted_of 1 (store ex_world4)) = [3, 4, 2]
   \<and> files ex_world4 ''/d/zips/r-aaaaaaa.zip'' = None
   \<and> (\<exists>dbRepo::DBRepo. length (undeleted_of (repo_ID dbRepo) (store ex_world4)) \<le> 4)"
proof -
  have h: "latest_commit (ex_env ''aaaaaaa1'' ''v4'' 4) = Some (''aaaaaaa1'', ''v4'')"
    by (simp add: ex_env_def)
  have e: "map ver_ID (undeleted_of 1 (store ex_world3)) = [3, 2, 1]"
    "map ver_ID (undeleted_of 1 (store ex_world4)) = [3, 4, 2]"
    "files ex_world4 ''/d/zips/r-aaaaaaa.zip'' = None"
    by (simp_all add: ex_world3_def ex_world4_def ex_state_def ex_row_def undeleted_of_def
          by_created_desc_def)
  from retention_after_sync [OF ex_world3_ok ex_run4 h]
  have "\<exists>dbRepo::DBRepo. length (undeleted_of (repo_ID dbRepo) (store ex_world4)) \<le> 4"
  proof (elim exE conjE)
    fix w1 zc ls wm and dbRepo :: DBRepo and w2 row
    assume "length (undeleted_of (repo_ID dbRepo) (store ex_world4)) \<le> 3
     \<or> length (undeleted_of (repo_ID dbRepo) (store ex_world4)) = 4
       \<and> ver_Tag (last (undeleted_of (repo_ID dbRepo) (store ex_world4))) = []"
    then have "length (undeleted_of (repo_ID dbRepo) (store ex_world4)) \<le> 4"
      by (elim disjE conjE) simp_all
    then show ?thesis by (rule exI)
  qed
  with ex_world3_ok ex_run4 h e show ?thesis by simp
qed

section \<open>What a run records\<close>

lemma ver_data_Mark:
  "map ver_data (versions (MarkVersionAsDeleted i d)) = map ver_data (versions d)"
  by (simp add: MarkVersionAsDeleted_def ver_data_def)

lemma retire_data:
  "retire cfg fails vs w = (w', ok) \<Longrightarrow>
     map ver_data (versions (store w')) = map ver_data (versions (store w))"
proof (induction vs arbitrary: w)
  case Nil
  then show ?case by simp
next
  case (Cons v vs)
  show ?case
  proof (cases "fails (ver_ID v)")
    case True
    with Cons.prems show ?thesis by (auto simp: Let_def os_Remove_def)
  next
    case False
    let ?w1 = "os_Remove (zips_path cfg (ver_ZipFile v)) w"
    let ?w2 = "?w1\<lparr>store := MarkVersionAsDeleted (ver_ID v) (store ?w1)\<rparr>"
    from False Cons.prems have "retire cfg fails vs ?w2 = (w', ok)"
      by (simp add: Let_def)
    from Cons.IH [OF this] show ?thesis
      by (simp add: ver_data_Mark os_Remove_def)
  qed
qed

lemma retention_data:
  assumes "retention cfg env i w = (w', ok)"
  shows "map ver_data (versions (store w')) = map ver_data (versions (store w))"
  using assms retire_data [of cfg "mark_err env" "GetOlderThan3LatestUnDeletedVersions i (store w)" w w' ok]
  by (auto simp: retention_def Let_def split: if_splits)

lemma ver_data_fields:
  assumes "map ver_data xs = map ver_data ys" "y \<in> set ys"
  shows "\<exists>x\<in>set xs. ver_ID x = ver_ID y \<and> ver_RepoID x = ver_RepoID y \<and> ver_Tag x = ver_Tag y
           \<and> ver_CommitHash x = ver_CommitHash y \<and> ver_ZipFile x = ver_ZipFile y
           \<and> ver_Size x = ver_Size y \<and> ver_CreatedAt x = ver_CreatedAt y"
proof -
  from assms(2) have "ver_data y \<in> set (map ver_data ys)" by simp
  with assms(1) have "ver_data y \<in> set (map ver_data xs)" by simp
  then obtain x where "x \<in> set xs" "ver_data x = ver_data y" by auto
  then show ?thesis by (auto simp: ver_data_def)
qed

lemma ver_key_of_data:
  "map ver_key xs = map (\<lambda>d. (fst (snd d), fst (snd (snd d)))) (map ver_data xs)"
  by (simp add: ver_key_def ver_data_def)

lemma ver_data_keys:
  "map ver_data xs = map ver_data ys \<Longrightarrow> map ver_key xs = map ver_key ys"
  by (simp only: ver_key_of_data)

lemma bex_mapI: "x \<in> set xs \<Longrightarrow> Q (f x) \<Longrightarrow> \<exists>y\<in>set (map f xs). Q y"
  by auto

lemma AddVersion_row:
  "\<exists>x\<in>set (versions (fst (AddVersion v d))).
      ver_RepoID x = ver_RepoID v \<and> ver_Tag x = ver_Tag v
      \<and> ver_CommitHash x = ver_CommitHash v \<and> ver_ZipFile x = ver_ZipFile v
      \<and> ver_Size x = ver_Size v \<and> ver_CreatedAt x = ver_CreatedAt v"
proof (cases "find (same_key v) (versions d)")
  case None
  then show ?thesis by (simp add: AddVersion_def Let_def)
next
  case (Some old)
  let ?f = "\<lambda>x. if same_key v x
                 then x\<lparr>ver_CommitHash := ver_CommitHash v,
                        ver_ZipFile := ver_ZipFile v,
                        ver_Size := ver_Size v,
                        ver_CreatedAt := ver_CreatedAt v\<rparr>
                 else x"
  let ?Q = "\<lambda>x. ver_RepoID x = ver_RepoID v \<and> ver_Tag x = ver_Tag v
      \<and> ver_CommitHash x = ver_CommitHash v \<and> ver_ZipFile x = ver_ZipFile v
      \<and> ver_Size x = ver_Size v \<and> ver_CreatedAt x = ver_CreatedAt v"
  from Some have o: "old \<in> set (versions d)" "same_key v old"
    by (auto simp: find_Some_iff)
  from o(2) have q: "?Q (?f old)" by (simp add: same_key_def)
  have "\<exists>x\<in>set (map ?f (versions d)). ?Q x"
    using o(1) q by (rule bex_mapI [where Q = ?Q and f = ?f])
  moreover have "versions (fst (AddVersion v d)) = map ?f (versions d)"
    using Some by (simp add: AddVersion_def)
  ultimately show ?thesis by (simp only:)
qed

lemma AddVersion_keys:
  assumes "\<exists>x\<in>set (versions d). ver_key x = ver_key v"
  shows "map ver_key (versions (fst (AddVersion v d))) = map ver_key (versions d)"
proof -
  let ?f = "\<lambda>x. if same_key v x
                 then x\<lparr>ver_CommitHash := ver_CommitHash v,
                        ver_ZipFile := ver_ZipFile v,
                        ver_Size := ver_Size v,
                        ver_CreatedAt := ver_CreatedAt v\<rparr>
                 else x"
  from assms have "find (same_key v) (versions d) \<noteq> None"
    by (auto simp: find_None_iff same_key_def ver_key_def)
  then obtain old where o: "find (same_key v) (versions d) = Some old" by auto
  have "map ver_key (map ?f (versions d)) = map ver_key (versions d)"
    by (rule map_upd_same) (simp add: ver_key_def)
  with o show ?thesis
    by (simp add: AddVersion_def del: map_map)
qed

lemma versions_UpsertRepo: "versions (fst (UpsertRepo now repo d)) = versions d"
  by (simp add: UpsertRepo_def Let_def split: option.splits)

lemma plv_UpsertRepo:
  "package_list_versions (fst (UpsertRepo now repo d)) = package_list_versions d"
  by (simp add: UpsertRepo_def Let_def split: option.splits)

lemma plv_AddVersion:
  "package_list_versions (fst (AddVersion v d)) = package_list_versions d"
  by (simp add: AddVersion_def Let_def split: option.splits)

lemma UpsertRepo_id:
  "find (\<lambda>x. repo_Name x = repo_Name repo) (repos d) = Some old \<Longrightarrow>
     repo_ID (snd (UpsertRepo now repo d)) = repo_ID old"
  by (simp add: UpsertRepo_def)

lemma syncRepo_plv:
  assumes run: "syncRepo cfg env r w = (w', res)"
  shows "package_list_versions (store w') = package_list_versions (store w)"
proof -
  have ez: "\<And>p ls w1 x. ensure_zip env p ls w = (w1, x) \<Longrightarrow> store w1 = store w"
    by (auto simp: ensure_zip_def split: if_splits prod.splits option.splits)
  have wm: "\<And>t c z ls w1 w2 x. write_meta env r t c z ls w1 = (w2, x) \<Longrightarrow>
              package_list_versions (store w2) = package_list_versions (store w1)"
    by (auto simp: write_meta_def Let_def split: option.splits if_splits prod.splits
             dest: arg_cong [where f = fst])
       (metis fst_conv plv_UpsertRepo plv_AddVersion)+
  have rt: "\<And>i w2 w3 b. retention cfg env i w2 = (w3, b) \<Longrightarrow>
              package_list_versions (store w3) = package_list_versions (store w2)"
    by (rule retention_frame(4))
  from run show ?thesis
    by (auto simp: syncRepo_def Let_def drop_moved_frame
             split: prod.splits option.splits sum.splits if_splits bool.splits
             dest!: ez wm rt)
qed

lemma syncRepo_records:
  assumes run: "syncRepo cfg env r w = (w', Inr changed)"
    and head: "latest_commit env = Some (commitHash, tag)"
  shows "\<exists>row sz. GetRepoByName (Name r) (store w') = Some row
           \<and> file_size env = Some sz
           \<and> repo_Tag row = tag \<and> repo_CommitHash row = commitHash
           \<and> repo_ZipFile row = zipFileName_of (Name r) commitHash \<and> repo_Size row = sz
           \<and> (\<exists>x\<in>set (versions (store w')).
                 ver_RepoID x = repo_ID row \<and> ver_Tag x = tag \<and> ver_CommitHash x = commitHash
                 \<and> ver_ZipFile x = zipFileName_of (Name r) commitHash \<and> ver_Size x = sz)"
proof -
  let ?Z = "zipFileName_of (Name r) commitHash"
  from run obtain c t zc ls w1 wm dbRepo where
    c: "latest_commit env = Some (c, t)"
    and wm: "write_meta env r t c (zipFileName_of (Name r) c) ls w1 = (wm, Inr dbRepo)"
    and rt: "retention cfg env (repo_ID dbRepo)
               (drop_moved cfg r (prev_tag env r w) (prev_commit env r w) t c wm) = (w', True)"
    by (rule syncRepo_success)
  from c head have [simp]: "c = commitHash" "t = tag" by simp_all
  from wm obtain sz where
    sz: "file_size env = Some sz"
    and db: "dbRepo = snd (UpsertRepo (now_upsert env)
                     \<lparr>repo_ID = 0, repo_Name = Name r, repo_URL = URL r, repo_Sync = Sync r,
                      repo_Tag = tag, repo_LastSync = ls, repo_CommitHash = commitHash,
                      repo_ZipFile = ?Z, repo_Size = sz,
                      repo_CreatedAt = 0, repo_UpdatedAt = 0\<rparr> (store w1))"
    and s2: "store wm = fst (AddVersion \<lparr>ver_ID = 0, ver_RepoID = repo_ID dbRepo, ver_Tag = tag,
                            ver_CommitHash = commitHash, ver_ZipFile = ?Z,
                            ver_Size = sz, ver_CreatedAt = ls, ver_Deleted = 0\<rparr>
                 (fst (UpsertRepo (now_upsert env)
                     \<lparr>repo_ID = 0, repo_Name = Name r, repo_URL = URL r, repo_Sync = Sync r,
                      repo_Tag = tag, repo_LastSync = ls, repo_CommitHash = commitHash,
                      repo_ZipFile = ?Z, repo_Size = sz,
                      repo_CreatedAt = 0, repo_UpdatedAt = 0\<rparr> (store w1))))"
    by (rule write_meta_success) simp
  let ?repo = "\<lparr>repo_ID = 0, repo_Name = Name r, repo_URL = URL r, repo_Sync = Sync r,
                      repo_Tag = tag, repo_LastSync = ls, repo_CommitHash = commitHash,
                      repo_ZipFile = ?Z, repo_Size = sz,
                      repo_CreatedAt = 0, repo_UpdatedAt = 0\<rparr>"
  let ?v = "\<lparr>ver_ID = 0, ver_RepoID = repo_ID dbRepo, ver_Tag = tag,
                            ver_CommitHash = commitHash, ver_ZipFile = ?Z,
                            ver_Size = sz, ver_CreatedAt = ls, ver_Deleted = 0\<rparr>"
  from GetRepoByName_UpsertRepo [of ?repo "now_upsert env" "store w1"] db
  obtain row where row: "GetRepoByName (Name r) (fst (UpsertRepo (now_upsert env) ?repo (store w1))) = Some row"
    "repo_ID row = repo_ID dbRepo" "repo_Tag row = tag" "repo_CommitHash row = commitHash"
    "repo_ZipFile row = ?Z" "repo_Size row = sz"
    by auto
  have "repos (store w') = repos (fst (UpsertRepo (now_upsert env) ?repo (store w1)))"
    using retention_frame(3) [OF rt] s2
    by (simp add: repos_AddVersion drop_moved_frame)
  with row(1) have g: "GetRepoByName (Name r) (store w') = Some row"
    by (simp add: GetRepoByName_def)
  from AddVersion_row [of ?v "fst (UpsertRepo (now_upsert env) ?repo (store w1))"] s2
  obtain y where y: "y \<in> set (versions (store wm))" "ver_RepoID y = repo_ID dbRepo"
    "ver_Tag y = tag" "ver_CommitHash y = commitHash" "ver_ZipFile y = ?Z" "ver_Size y = sz"
    by auto
  from retention_data [OF rt]
  have "map ver_data (versions (store w')) = map ver_data (versions (store wm))"
    by (simp add: drop_moved_frame)
  from ver_data_fields [OF this y(1)] y row(2)
  have "\<exists>x\<in>set (versions (store w')).
                 ver_RepoID x = repo_ID row \<and> ver_Tag x = tag \<and> ver_CommitHash x = commitHash
                 \<and> ver_ZipFile x = ?Z \<and> ver_Size x = sz"
    by auto
  with g sz row show ?thesis by blast
qed

section \<open>Running again with nothing changed\<close>

lemma resync_noop:
  assumes rec: "GetRepoByName (Name r) (store w) = Some p" "repo_Tag p = tag"
      "repo_CommitHash p = commitHash"
    and row: "\<exists>x\<in>set (versions (store w)). ver_RepoID x = repo_ID p \<and> ver_Tag x = tag"
    and read: "\<not> getrepo_err env"
    and head: "latest_commit env = Some (commitHash, tag)"
    and present: "files w (zips_path cfg (zipFileName_of (Name r) commitHash)) \<noteq> None"
    and run: "syncRepo cfg env r w = (w', Inr changed)"
  shows "\<not> changed" "dom (files w') \<subseteq> dom (files w)"
    "map ver_key (versions (store w')) = map ver_key (versions (store w))"
proof -
  let ?Z = "zipFileName_of (Name r) commitHash"
  from run obtain c t zc ls w1 wm dbRepo where
    c: "latest_commit env = Some (c, t)"
    and ez: "ensure_zip env (zips_path cfg (zipFileName_of (Name r) c)) (prev_sync env r w) w
               = (w1, Inr (zc, ls))"
    and wm: "write_meta env r t c (zipFileName_of (Name r) c) ls w1 = (wm, Inr dbRepo)"
    and rt: "retention cfg env (repo_ID dbRepo)
               (drop_moved cfg r (prev_tag env r w) (prev_commit env r w) t c wm) = (w', True)"
    and ch: "changed = (zc \<or> t \<noteq> prev_tag env r w)"
    by (rule syncRepo_success)
  from c head have [simp]: "c = commitHash" "t = tag" by simp_all
  from rec read have pt: "prev_tag env r w = tag"
    by (simp add: prev_tag_def read_prev_def)
  from ez have ez': "ensure_zip env (zips_path cfg ?Z) (prev_sync env r w) w = (w1, Inr (zc, ls))"
    by simp
  note e = ensure_zip_success [OF ez']
  from e(3) present have zc: "\<not> zc" by simp
  from e(5) present have w1: "w1 = w" by simp
  from ch zc pt show "\<not> changed" by simp
  from wm obtain sz where
    f2: "files wm = files w1"
    and db: "dbRepo = snd (UpsertRepo (now_upsert env)
                     \<lparr>repo_ID = 0, repo_Name = Name r, repo_URL = URL r, repo_Sync = Sync r,
                      repo_Tag = tag, repo_LastSync = ls, repo_CommitHash = commitHash,
                      repo_ZipFile = ?Z, repo_Size = sz,
                      repo_CreatedAt = 0, repo_UpdatedAt = 0\<rparr> (store w1))"
    and s2: "store wm = fst (AddVersion \<lparr>ver_ID = 0, ver_RepoID = repo_ID dbRepo, ver_Tag = tag,
                            ver_CommitHash = commitHash, ver_ZipFile = ?Z,
                            ver_Size = sz, ver_CreatedAt = ls, ver_Deleted = 0\<rparr>
                 (fst (UpsertRepo (now_upsert env)
                     \<lparr>repo_ID = 0, repo_Name = Name r, repo_URL = URL r, repo_Sync = Sync r,
                      repo_Tag = tag, repo_LastSync = ls, repo_CommitHash = commitHash,
                      repo_ZipFile = ?Z, repo_Size = sz,
                      repo_CreatedAt = 0, repo_UpdatedAt = 0\<rparr> (store w1))))"
    by (rule write_meta_success) simp
  let ?repo = "\<lparr>repo_ID = 0, repo_Name = Name r, repo_URL = URL r, repo_Sync = Sync r,
                      repo_Tag = tag, repo_LastSync = ls, repo_CommitHash = commitHash,
                      repo_ZipFile = ?Z, repo_Size = sz,
                      repo_CreatedAt = 0, repo_UpdatedAt = 0\<rparr>"
  let ?v = "\<lparr>ver_ID = 0, ver_RepoID = repo_ID dbRepo, ver_Tag = tag,
                            ver_CommitHash = commitHash, ver_ZipFile = ?Z,
                            ver_Size = sz, ver_CreatedAt = ls, ver_Deleted = 0\<rparr>"
  from retention_frame(1) [OF rt] f2 w1
    drop_moved_frame(3) [of cfg r "prev_tag env r w" "prev_commit env r w" tag commitHash wm]
  show "dom (files w') \<subseteq> dom (files w)" by auto
  from rec(1) have "find (\<lambda>x. repo_Name x = repo_Name ?repo) (repos (store w)) = Some p"
    by (simp add: GetRepoByName_def)
  from UpsertRepo_id [OF this, of "now_upsert env"] db w1
  have id: "repo_ID dbRepo = repo_ID p" by simp
  with row have "\<exists>x\<in>set (versions (fst (UpsertRepo (now_upsert env) ?repo (store w)))).
                   ver_key x = ver_key ?v"
    by (simp add: versions_UpsertRepo ver_key_def)
  from AddVersion_keys [OF this] s2 w1
  have "map ver_key (versions (store wm)) = map ver_key (versions (store w))"
    by (simp add: versions_UpsertRepo)
  moreover from retention_data [OF rt]
  have "map ver_key (versions (store w')) = map ver_key (versions (store wm))"
    by (intro ver_data_keys) (simp add: drop_moved_frame)
  ultimately show "map ver_key (versions (store w')) = map ver_key (versions (store w))"
    by simp
qed

lemma count_by_key:
  assumes "map ver_key xs = map ver_key ys"
  shows "length (filter (\<lambda>v. ver_key v = k) xs) = length (filter (\<lambda>v. ver_key v = k) ys)"
proof -
  from assms have "length (filter (\<lambda>x. x = k) (map ver_key xs))
                 = length (filter (\<lambda>x. x = k) (map ver_key ys))"
    by (simp only:)
  then show ?thesis by (simp add: comp_def)
qed

lemma SyncAll_unchanged:
  "syncRepo cfg env r w = (w', Inr False) \<Longrightarrow> SyncAll cfg [(r, env)] benv onSync w = (w', Synced)"
  by (simp add: SyncAll_def)

text \<open>
  Claim C3, as amended. Let a run of \<open>syncRepo\<close> have ended without error at a commit
  and tag, and let the next run observe the same commit and tag, read the recorded
  state, and find the artifact of that commit on disk. Then the next run, if it ends
  without error, reports no change, adds no file, leaves the version rows of every
  \<open>(repo_id, tag)\<close> as many as they were, leaves the catalog version table as it was,
  and a \<open>SyncAll\<close> made of this run alone ends without a bump and without calling the
  callback.
\<close>

theorem resync_unchanged_is_noop:
  assumes first: "syncRepo cfg env0 r w0 = (w, Inr changed0)"
    and head0: "latest_commit env0 = Some (commitHash, tag)"
    and head: "latest_commit env = Some (commitHash, tag)"
    and read: "\<not> getrepo_err env"
    and present: "files w (zips_path cfg (zipFileName_of (Name r) commitHash)) \<noteq> None"
    and run: "syncRepo cfg env r w = (w', Inr changed)"
  shows "\<not> changed
       \<and> dom (files w') \<subseteq> dom (files w)
       \<and> map ver_key (versions (store w')) = map ver_key (versions (store w))
       \<and> length (filter (\<lambda>v. ver_key v = k) (versions (store w')))
           = length (filter (\<lambda>v. ver_key v = k) (versions (store w)))
       \<and> package_list_versions (store w') = package_list_versions (store w)
       \<and> SyncAll cfg [(r, env)] benv onSync w = (w', Synced)"
proof -
  from syncRepo_records [OF first head0]
  obtain p where p: "GetRepoByName (Name r) (store w) = Some p" "repo_Tag p = tag"
    "repo_CommitHash p = commitHash"
    "\<exists>x\<in>set (versions (store w)). ver_RepoID x = repo_ID p \<and> ver_Tag x = tag"
    by blast
  note n = resync_noop [OF p(1) p(2) p(3) p(4) read head present run]
  from n(1) run have "syncRepo cfg env r w = (w', Inr False)" by simp
  then have "SyncAll cfg [(r, env)] benv onSync w = (w', Synced)" by (rule SyncAll_unchanged)
  with n count_by_key [OF n(3), of k] syncRepo_plv [OF run] show ?thesis by simp
qed

theorem resync_unchanged_is_noop_witness:
  "syncRepo ex_cfg (ex_env ''aaaaaaa1'' ''v1'' 1) ex_repo ex_world = (ex_world1, Inr True)
   \<and> latest_commit (ex_env ''aaaaaaa1'' ''v1'' 1) = Some (''aaaaaaa1'', ''v1'')
   \<and> latest_commit (ex_env ''aaaaaaa1'' ''v1'' 2) = Some (''aaaaaaa1'', ''v1'')
   \<and> \<not> getrepo_err (ex_env ''aaaaaaa1'' ''v1'' 2)
   \<and> files ex_world1 (zips_path ex_cfg (zipFileName_of (Name ex_repo) ''aaaaaaa1'')) \<noteq> None
   \<and> syncRepo ex_cfg (ex_env ''aaaaaaa1'' ''v1'' 2) ex_repo ex_world1 =
       (ex_state ''v1'' ''aaaaaaa1'' 1 2
          [ex_row 1 ''v1'' ''aaaaaaa1'' ''r-aaaaaaa.zip'' 1 0] [''r-aaaaaaa.zip''], Inr False)
   \<and> SyncAll ex_cfg [(ex_repo, ex_env ''aaaaaaa1'' ''v1'' 2)] \<lparr>bump_err = False, bump_now = 2\<rparr> None
        ex_world1 =
       (ex_state ''v1'' ''aaaaaaa1'' 1 2
          [ex_row 1 ''v1'' ''aaaaaaa1'' ''r-aaaaaaa.zip'' 1 0] [''r-aaaaaaa.zip''], Synced)"
proof -
  have h1: "latest_commit (ex_env ''aaaaaaa1'' ''v1'' 1) = Some (''aaaaaaa1'', ''v1'')"
    and h2: "latest_commit (ex_env ''aaaaaaa1'' ''v1'' 2) = Some (''aaaaaaa1'', ''v1'')"
    and rd: "\<not> getrepo_err (ex_env ''aaaaaaa1'' ''v1'' 2)"
    by (simp_all add: ex_env_def)
  have pr: "files ex_world1 (zips_path ex_cfg (zipFileName_of (Name ex_repo) ''aaaaaaa1'')) \<noteq> None"
    by (simp add: eval_defs ex_world1_def)
  from resync_unchanged_is_noop [OF ex_run1 h1 h2 rd pr ex_rerun1,
      of "(1, ''v1'')" "\<lparr>bump_err = False, bump_now = 2\<rparr>" None]
  have "SyncAll ex_cfg [(ex_repo, ex_env ''aaaaaaa1'' ''v1'' 2)] \<lparr>bump_err = False, bump_now = 2\<rparr> None
        ex_world1 =
       (ex_state ''v1'' ''aaaaaaa1'' 1 2
          [ex_row 1 ''v1'' ''aaaaaaa1'' ''r-aaaaaaa.zip'' 1 0] [''r-aaaaaaa.zip''], Synced)"
    by (elim conjE)
  with ex_run1 h1 h2 rd pr ex_rerun1 show ?thesis by (intro conjI)
qed

text \<open>
  Claim C3 as stated fails. Four runs, each ending without error: commits \<open>aaaaaaa1\<close>
  (tag \<open>v1\<close>), \<open>bbbbbbb1\<close> (\<open>v2\<close>), \<open>ccccccc1\<close> (\<open>v3\<close>), and \<open>aaaaaaa1\<close> again under
  the new tag \<open>v4\<close>. The fourth run finds the artifact of \<open>aaaaaaa1\<close> on disk, records
  it for \<open>v4\<close>, and then retires the row of \<open>v1\<close>, whose file is that same artifact:
  the file is gone. The fifth run observes the same commit and tag as the fourth,
  builds the artifact anew and reports a change, and \<open>SyncAll\<close> bumps the catalog
  version. And a run that cannot read the repository's record takes the recorded tag
  to be empty: after the first run, the same commit and tag again are reported as a
  change.
\<close>

theorem resync_unchanged_counterexample:
  "syncRepo ex_cfg (ex_env ''aaaaaaa1'' ''v1'' 1) ex_repo ex_world = (ex_world1, Inr True)
   \<and> syncRepo ex_cfg (ex_env ''bbbbbbb1'' ''v2'' 2) ex_repo ex_world1 = (ex_world2, Inr True)
   \<and> syncRepo ex_cfg (ex_env ''ccccccc1'' ''v3'' 3) ex_repo ex_world2 = (ex_world3, Inr True)
   \<and> syncRepo ex_cfg (ex_env ''aaaaaaa1'' ''v4'' 4) ex_repo ex_world3 = (ex_world4, Inr True)
   \<and> syncRepo ex_cfg (ex_env ''aaaaaaa1'' ''v4'' 5) ex_repo ex_world4 = (ex_world5, Inr True)
   \<and> files ex_world4 ''/d/zips/r-aaaaaaa.zip'' = None
   \<and> files ex_world5 ''/d/zips/r-aaaaaaa.zip'' = Some [(''a'', ''x'')]
   \<and> max_version (store ex_world4) = 0
   \<and> max_version (store (fst (SyncAll ex_cfg [(ex_repo, ex_env ''aaaaaaa1'' ''v4'' 5)]
                                 \<lparr>bump_err = False, bump_now = 5\<rparr> None ex_world4))) = 1
   \<and> syncRepo ex_cfg ((ex_env ''aaaaaaa1'' ''v1'' 2)\<lparr>getrepo_err := True\<rparr>) ex_repo ex_world1 =
       (ex_state ''v1'' ''aaaaaaa1'' 2 2
          [ex_row 1 ''v1'' ''aaaaaaa1'' ''r-aaaaaaa.zip'' 2 0] [''r-aaaaaaa.zip''], Inr True)"
proof -
  have "files ex_world4 ''/d/zips/r-aaaaaaa.zip'' = None"
    "files ex_world5 ''/d/zips/r-aaaaaaa.zip'' = Some [(''a'', ''x'')]"
    "max_version (store ex_world4) = 0"
    by (simp_all add: ex_world4_def ex_world5_def ex_state_def max_version_def)
  moreover have "max_version (store (fst (SyncAll ex_cfg [(ex_repo, ex_env ''aaaaaaa1'' ''v4'' 5)]
                                 \<lparr>bump_err = False, bump_now = 5\<rparr> None ex_world4))) = 1"
    by (simp add: SyncAll_def ex_run5 max_version_Increment)
       (simp add: ex_world5_def ex_state_def max_version_def)
  ultimately show ?thesis
    using ex_run1 ex_run2 ex_run3 ex_run4 ex_run5 ex_rerun1_unread by (intro conjI)
qed

section \<open>A tag that moves\<close>





lemma zips_path_inj: "zips_path cfg a = zips_path cfg b \<Longrightarrow> a = b"
  by (auto simp: join_zips split: if_splits)

lemma zipFileName_inj:
  "zipFileName_of n a = zipFileName_of n b \<Longrightarrow> take 7 a = take 7 b"
  by (simp add: zipFileName_of_def)






lemma AddVersion_origin:
  assumes v: "v \<in> set (versions (fst (AddVersion nv d)))"
  shows "(v \<notin> set (versions d) \<and> ver_ID v = seq_versions d + 1 \<and> ver_Deleted v = 0)
       \<or> (\<exists>y\<in>set (versions d). ver_ID y = ver_ID v \<and> ver_Deleted y = ver_Deleted v
             \<and> (ver_ZipFile y = ver_ZipFile v \<or> ver_ZipFile v = ver_ZipFile nv))"
proof (cases "find (same_key nv) (versions d)")
  case None
  with v show ?thesis by (auto simp: AddVersion_def Let_def)
next
  case (Some old)
  with v show ?thesis by (auto simp: AddVersion_def)
qed




lemma ex_run4F:
  "syncRepo ex_cfg (ex_env ''ddddddd1'' ''v4'' 4) ex_repo ex_world3 = (ex_worldF, Inr True)"
  by (simp add: eval_defs ex_world3_def ex_worldF_def fun_eq_iff)



text \<open>
  The proviso excludes no run in which the artifact is left on disk: a run that ends
  without error has removed the file of every version row it marked deleted.
\<close>

lemma marked_row_file_removed:
  assumes ok: "store_ok (store w)"
    and run: "syncRepo cfg env r w = (w', Inr changed)"
    and x: "x \<in> set (versions (store w'))" "ver_Deleted x \<noteq> 0"
    and new: "\<forall>y\<in>set (versions (store w)). ver_ID y = ver_ID x \<longrightarrow> ver_Deleted y = 0"
  shows "files w' (zips_path cfg (ver_ZipFile x)) = None"
proof -
  from run obtain c t zc ls w1 wm dbRepo where
    ez: "ensure_zip env (zips_path cfg (zipFileName_of (Name r) c)) (prev_sync env r w) w
               = (w1, Inr (zc, ls))"
    and wm: "write_meta env r t c (zipFileName_of (Name r) c) ls w1 = (wm, Inr dbRepo)"
    and rt: "retention cfg env (repo_ID dbRepo)
               (drop_moved cfg r (prev_tag env r w) (prev_commit env r w) t c wm) = (w', True)"
    by (rule syncRepo_success)
  let ?w2 = "drop_moved cfg r (prev_tag env r w) (prev_commit env r w) t c wm"
  let ?older = "drop 3 (undeleted_of (repo_ID dbRepo) (store ?w2))"
  note e = ensure_zip_success [OF ez]
  from e(1) ok have ok1: "store_ok (store w1)" by simp
  with wm have okm: "store_ok (store wm)" by (rule write_meta_store_ok [rotated])
  then have d: "distinct (map ver_ID (versions (store ?w2)))"
    by (simp add: drop_moved_frame store_ok_def)
  then have inj: "inj_on ver_ID (set (versions (store ?w2)))" by (simp add: distinct_map)
  from wm obtain sz repo nv where
    s2: "store wm = fst (AddVersion nv (fst (UpsertRepo (now_upsert env) repo (store w1))))"
    by (rule write_meta_success) simp
  have fresh: "ver_Deleted v = 0" if "v \<in> set (versions (store wm))" "ver_ID v = ver_ID x" for v
  proof -
    from that(1) s2
    have "v \<in> set (versions (fst (AddVersion nv (fst (UpsertRepo (now_upsert env) repo (store w1))))))"
      by simp
    from AddVersion_origin [OF this] new that(2) e(1) show ?thesis
      by (auto simp: versions_UpsertRepo)
  qed
  show ?thesis
  proof (cases "exempt ?older")
    case True
    from retention_True(1) [OF d rt True] have "w' = ?w2" .
    with x(1) have "x \<in> set (versions (store wm))" by (simp add: drop_moved_frame)
    from fresh [OF this] x(2) show ?thesis by simp
  next
    case False
    with rt have "retire cfg (mark_err env) ?older ?w2 = (w', True)"
      by (simp add: retention_def GetOlderThan3LatestUnDeletedVersions_def split: if_splits)
    from retire_True [OF this]
    have vs: "versions (store w') = mark_all (ver_ID ` set ?older) (versions (store ?w2))"
      and fs: "files w' = (\<lambda>p. if p \<in> (\<lambda>v. zips_path cfg (ver_ZipFile v)) ` set ?older then None
                        else files ?w2 p)"
      by simp_all
    from x(1) vs obtain v where v: "v \<in> set (versions (store ?w2))"
      "x = (if ver_ID v \<in> ver_ID ` set ?older then v\<lparr>ver_Deleted := 1\<rparr> else v)"
      by (auto simp: mark_all_def)
    from v(1) have vm: "v \<in> set (versions (store wm))" by (simp add: drop_moved_frame)
    from v(2) have same: "ver_ID v = ver_ID x" "ver_ZipFile v = ver_ZipFile x"
      by (simp_all split: if_splits)
    have "ver_ID v \<in> ver_ID ` set ?older"
    proof (rule ccontr)
      assume "ver_ID v \<notin> ver_ID ` set ?older"
      with v(2) have "x = v" by simp
      with fresh [OF vm same(1)] x(2) show False by simp
    qed
    then obtain u where u: "u \<in> set ?older" "ver_ID u = ver_ID v" by auto
    from u(1) have "u \<in> set (undeleted_of (repo_ID dbRepo) (store ?w2))" by (rule in_set_dropD)
    with set_undeleted have "u \<in> set (versions (store ?w2))" by blast
    with inj v(1) u(2) have "u = v" by (auto dest: inj_onD)
    with u(1) have "v \<in> set ?older" by simp
    then have "zips_path cfg (ver_ZipFile v) \<in> (\<lambda>v. zips_path cfg (ver_ZipFile v)) ` set ?older"
      by (rule imageI)
    with fs same(2) show ?thesis by simp
  qed
qed

lemma filter_map_same:
  "(\<And>x. P (f x) = P x) \<Longrightarrow> filter P (map f xs) = map f (filter P xs)"
  by (induction xs) auto

lemma undeleted_length_AddVersion:
  assumes "\<exists>x\<in>set (versions d). ver_key x = ver_key v"
  shows "length (undeleted_of i (fst (AddVersion v d))) = length (undeleted_of i d)"
proof -
  let ?f = "\<lambda>x. if same_key v x
                 then x\<lparr>ver_CommitHash := ver_CommitHash v,
                        ver_ZipFile := ver_ZipFile v,
                        ver_Size := ver_Size v,
                        ver_CreatedAt := ver_CreatedAt v\<rparr>
                 else x"
  from assms have "find (same_key v) (versions d) \<noteq> None"
    by (auto simp: find_None_iff same_key_def ver_key_def)
  then obtain old where o: "find (same_key v) (versions d) = Some old" by auto
  then have "versions (fst (AddVersion v d)) = map ?f (versions d)"
    by (simp add: AddVersion_def)
  moreover have "filter (\<lambda>x. ver_RepoID x = i \<and> ver_Deleted x = 0) (map ?f (versions d))
        = map ?f (filter (\<lambda>x. ver_RepoID x = i \<and> ver_Deleted x = 0) (versions d))"
    by (rule filter_map_same) simp
  ultimately show ?thesis
    by (simp add: undeleted_of_def by_created_desc_def)
qed

text \<open>
  And the proviso holds of itself where the tag has its version row and at most three
  rows of the repository are not deleted before the run, which is how a run that ends
  without error leaves the repository (the exemption of the placeholder row apart): the
  retention pass then retires nothing.
\<close>

lemma moved_tag_artifact_kept:
  assumes ok: "store_ok (store w)"
    and read: "\<not> getrepo_err env"
    and rec: "GetRepoByName (Name r) (store w) = Some p"
    and same_tag: "repo_Tag p = tag"
    and moved: "take 7 (repo_CommitHash p) \<noteq> take 7 commitHash"
    and len: "7 \<le> length (repo_CommitHash p)"
    and head: "latest_commit env = Some (commitHash, tag)"
    and run: "syncRepo cfg env r w = (w', Inr changed)"
    and row: "\<exists>x\<in>set (versions (store w)). ver_RepoID x = repo_ID p \<and> ver_Tag x = tag"
    and few: "length (undeleted_of (repo_ID p) (store w)) \<le> 3"
  shows "files w' (zips_path cfg (zipFileName_of (Name r) commitHash)) \<noteq> None"
proof -
  let ?Z = "zipFileName_of (Name r) commitHash"
  let ?P = "zips_path cfg ?Z"
  let ?O = "zips_path cfg (zipFileName_of (Name r) (repo_CommitHash p))"
  from run obtain c t zc ls w1 wm dbRepo where
    c: "latest_commit env = Some (c, t)"
    and ez: "ensure_zip env (zips_path cfg (zipFileName_of (Name r) c)) (prev_sync env r w) w
               = (w1, Inr (zc, ls))"
    and wm: "write_meta env r t c (zipFileName_of (Name r) c) ls w1 = (wm, Inr dbRepo)"
    and rt: "retention cfg env (repo_ID dbRepo)
               (drop_moved cfg r (prev_tag env r w) (prev_commit env r w) t c wm) = (w', True)"
    by (rule syncRepo_success)
  from c head have [simp]: "c = commitHash" "t = tag" by simp_all
  from rec read same_tag have pt: "prev_tag env r w = tag"
    and pc: "prev_commit env r w = repo_CommitHash p"
    by (simp_all add: prev_tag_def prev_commit_def read_prev_def)
  from moved have ne: "repo_CommitHash p \<noteq> commitHash" by auto
  from moved have pne: "?O \<noteq> ?P"
    by (auto dest!: zips_path_inj zipFileName_inj)
  let ?w2 = "drop_moved cfg r tag (repo_CommitHash p) tag commitHash wm"
  from rt pt pc have rt': "retention cfg env (repo_ID dbRepo) ?w2 = (w', True)" by simp
  from len ne have w2: "?w2 = os_Remove ?O wm" by (simp add: drop_moved_def)
  from ez have ez': "ensure_zip env ?P (prev_sync env r w) w = (w1, Inr (zc, ls))" by simp
  note e = ensure_zip_success [OF ez']
  from wm obtain sz where
    f2: "files wm = files w1"
    and db: "dbRepo = snd (UpsertRepo (now_upsert env)
                     \<lparr>repo_ID = 0, repo_Name = Name r, repo_URL = URL r, repo_Sync = Sync r,
                      repo_Tag = tag, repo_LastSync = ls, repo_CommitHash = commitHash,
                      repo_ZipFile = ?Z, repo_Size = sz,
                      repo_CreatedAt = 0, repo_UpdatedAt = 0\<rparr> (store w1))"
    and s2: "store wm = fst (AddVersion \<lparr>ver_ID = 0, ver_RepoID = repo_ID dbRepo, ver_Tag = tag,
                            ver_CommitHash = commitHash, ver_ZipFile = ?Z,
                            ver_Size = sz, ver_CreatedAt = ls, ver_Deleted = 0\<rparr>
                 (fst (UpsertRepo (now_upsert env)
                     \<lparr>repo_ID = 0, repo_Name = Name r, repo_URL = URL r, repo_Sync = Sync r,
                      repo_Tag = tag, repo_LastSync = ls, repo_CommitHash = commitHash,
                      repo_ZipFile = ?Z, repo_Size = sz,
                      repo_CreatedAt = 0, repo_UpdatedAt = 0\<rparr> (store w1))))"
    by (rule write_meta_success) simp
  let ?repo = "\<lparr>repo_ID = 0, repo_Name = Name r, repo_URL = URL r, repo_Sync = Sync r,
                      repo_Tag = tag, repo_LastSync = ls, repo_CommitHash = commitHash,
                      repo_ZipFile = ?Z, repo_Size = sz,
                      repo_CreatedAt = 0, repo_UpdatedAt = 0\<rparr>"
  from rec e(1) have "find (\<lambda>x. repo_Name x = repo_Name ?repo) (repos (store w1)) = Some p"
    by (simp add: GetRepoByName_def)
  from UpsertRepo_id [OF this, of "now_upsert env"] db
  have id: "repo_ID dbRepo = repo_ID p" by simp
  \<comment> \<open>the old artifact\<close>
  have "files ?w2 ?O = None" by (simp add: w2 os_Remove_def)
  with retention_frame(1) [OF rt'] have 1: "files w' ?O = None" by (auto simp: domIff)
  \<comment> \<open>the new artifact\<close>
  from e(4) f2 pne have n2: "files ?w2 ?P \<noteq> None" by (simp add: w2 os_Remove_def)
  let ?v = "\<lparr>ver_ID = 0, ver_RepoID = repo_ID dbRepo, ver_Tag = tag,
                            ver_CommitHash = commitHash, ver_ZipFile = ?Z,
                            ver_Size = sz, ver_CreatedAt = ls, ver_Deleted = 0\<rparr>"
  from row id e(1) have "\<exists>x\<in>set (versions (fst (UpsertRepo (now_upsert env) ?repo (store w1)))).
                   ver_key x = ver_key ?v"
    by (simp add: versions_UpsertRepo ver_key_def)
  from undeleted_length_AddVersion [OF this, of "repo_ID p"] s2
  have "length (undeleted_of (repo_ID p) (store wm))
          = length (undeleted_of (repo_ID p) (fst (UpsertRepo (now_upsert env) ?repo (store w1))))"
    by simp
  also have "\<dots> = length (undeleted_of (repo_ID p) (store w))"
    using e(1) by (simp add: undeleted_of_def versions_UpsertRepo)
  finally have "drop 3 (undeleted_of (repo_ID dbRepo) (store ?w2)) = []"
    using few id by (simp add: w2 os_Remove_def undeleted_of_def)
  with rt' have "w' = ?w2"
    by (simp add: retention_def GetOlderThan3LatestUnDeletedVersions_def exempt_def
             split: if_splits)
  with n2 show ?thesis by simp
qed


section \<open>SyncAll: failures, the bump and the callback\<close>

lemma syncRepo_cache:
  assumes run: "syncRepo cfg env r w = (w', res)"
  shows "cache w' = cache w"
proof -
  have ez: "\<And>p ls w1 x. ensure_zip env p ls w = (w1, x) \<Longrightarrow> cache w1 = cache w"
    by (auto simp: ensure_zip_def split: if_splits prod.splits option.splits)
  have wm: "\<And>t c z ls w1 w2 x. write_meta env r t c z ls w1 = (w2, x) \<Longrightarrow> cache w2 = cache w1"
    by (auto simp: write_meta_def Let_def split: option.splits if_splits prod.splits)
  have rt: "\<And>i w2 w3 b. retention cfg env i w2 = (w3, b) \<Longrightarrow> cache w3 = cache w2"
    by (rule retention_frame(2))
  from run show ?thesis
    by (auto simp: syncRepo_def Let_def drop_moved_frame
             split: prod.splits option.splits sum.splits if_splits bool.splits
             dest!: ez wm rt)
qed

lemma run_pipelines_frame:
  "run_pipelines cfg runs errs hc w = (w', res) \<Longrightarrow>
     package_list_versions (store w') = package_list_versions (store w) \<and> cache w' = cache w"
proof (induction runs arbitrary: errs hc w)
  case Nil
  then show ?case by simp
next
  case (Cons a runs)
  obtain r env where a: "a = (r, env)" by (cases a)
  obtain w1 res1 where s: "syncRepo cfg env r w = (w1, res1)" by (cases "syncRepo cfg env r w")
  note f = syncRepo_plv [OF s] syncRepo_cache [OF s]
  show ?case
  proof (cases res1)
    case (Inr changed)
    with Cons.prems a s have "run_pipelines cfg runs errs (hc \<or> changed) w1 = (w', res)" by simp
    from Cons.IH [OF this] f show ?thesis by simp
  next
    case (Inl e)
    show ?thesis
    proof (cases "e = SliceBounds")
      case True
      with Inl Cons.prems a s f show ?thesis by auto
    next
      case False
      with Inl Cons.prems a s have "run_pipelines cfg runs (errs @ [(Name r, e)]) hc w1 = (w', res)"
        by (cases e) simp_all
      from Cons.IH [OF this] f show ?thesis by simp
    qed
  qed
qed

lemma SyncAll_errors_no_bump:
  assumes "SyncAll cfg runs benv onSync w = (w', SyncErrors errs)"
  shows "package_list_versions (store w') = package_list_versions (store w) \<and> cache w' = cache w"
proof -
  obtain w1 res where r: "run_pipelines cfg runs [] False w = (w1, res)"
    by (cases "run_pipelines cfg runs [] False w")
  with assms have "w' = w1"
    by (auto simp: SyncAll_def Let_def split: option.splits prod.splits if_splits)
  with run_pipelines_frame [OF r] show ?thesis by simp
qed


lemma max_version_cong:
  "package_list_versions d' = package_list_versions d \<Longrightarrow> max_version d' = max_version d"
  by (simp add: max_version_def)

lemma ex_run_down: "syncRepo ex_cfg (ex_down n) ex_repo2 w = (w, Inl GitErr)"
  by (simp add: syncRepo_def ex_down_def ex_env_def case_prod_beta)

lemma SyncAll_bumps_once:
  assumes r: "run_pipelines cfg runs [] False w = (w1, Some ([], True))"
    and b: "\<not> bump_err benv"
  shows "SyncAll cfg runs benv (Some callback) w =
           (callback (w1\<lparr>store := IncrementPackageListVersion (bump_now benv) (store w1)\<rparr>), Synced)"
    and "max_version (IncrementPackageListVersion (bump_now benv) (store w1))
           = max_version (store w) + 1"
proof -
  from r b show "SyncAll cfg runs benv (Some callback) w =
           (callback (w1\<lparr>store := IncrementPackageListVersion (bump_now benv) (store w1)\<rparr>), Synced)"
    by (simp add: SyncAll_def)
  from run_pipelines_frame [OF r] have "max_version (store w1) = max_version (store w)"
    by (intro max_version_cong) simp
  then show "max_version (IncrementPackageListVersion (bump_now benv) (store w1))
           = max_version (store w) + 1"
    by (simp add: max_version_Increment)
qed



lemma ex_repo2_Name: "Name ex_repo2 = ''s''"
  by (simp add: ex_repo2_def)

lemma ex_published:
  "ex_callback (ex_world1\<lparr>store := IncrementPackageListVersion 8 (store ex_world1)\<rparr>) =
     ex_world1\<lparr>store := IncrementPackageListVersion 8 (store ex_world1),
       cache := \<lparr>cache_packages = Some [ex_info], cache_version = Some (1, 8),
                 cache_packageInfo = [''r'' \<mapsto> ex_info]\<rparr>\<rparr>"
  by (simp add: ex_callback_def UpdateCache_def ex_cache_env_def ex_world1_def ex_state_def
        ex_row_def ex_cfg_def ex_info_def
        IncrementPackageListVersion_def GetLatestPackageListVersion_def max_version_def
        GetAllRepos_def GetVersionsByRepoID_def by_created_desc_def to_Version_def
        getDownloadURL_def empty_cache_def Let_def)

text \<open>
  Claim C1 against the code. The repository \<open>r\<close> is synchronised for the first time
  and reports a change; the pull of the repository \<open>s\<close> fails. In either order of the
  two pipelines \<open>SyncAll\<close> returns the error of \<open>s\<close>, the rows and the artifact of \<open>r\<close>
  are written, and neither is the catalog version bumped nor the callback called: the
  version table stays empty and the cache uninitialised. The next \<open>SyncAll\<close>, with \<open>r\<close>
  unchanged and \<open>s\<close> failing again, does the same. Without \<open>s\<close>, the same first run of
  \<open>r\<close> bumps the version to 1 and the callback fills the cache.
\<close>

theorem SyncAll_failure_suppresses_bump:
  "SyncAll ex_cfg [(ex_repo, ex_env ''aaaaaaa1'' ''v1'' 1), (ex_repo2, ex_down 1)]
      ex_bump (Some ex_callback) ex_world = (ex_world1, SyncErrors [(''s'', GitErr)])
   \<and> SyncAll ex_cfg [(ex_repo2, ex_down 1), (ex_repo, ex_env ''aaaaaaa1'' ''v1'' 1)]
      ex_bump (Some ex_callback) ex_world = (ex_world1, SyncErrors [(''s'', GitErr)])
   \<and> package_list_versions (store ex_world1) = []
   \<and> cache ex_world1 = empty_cache
   \<and> SyncAll ex_cfg [(ex_repo, ex_env ''aaaaaaa1'' ''v1'' 2), (ex_repo2, ex_down 2)]
        ex_bump (Some ex_callback) ex_world1 =
       (ex_state ''v1'' ''aaaaaaa1'' 1 2
          [ex_row 1 ''v1'' ''aaaaaaa1'' ''r-aaaaaaa.zip'' 1 0] [''r-aaaaaaa.zip''],
        SyncErrors [(''s'', GitErr)])
   \<and> package_list_versions (store (ex_state ''v1'' ''aaaaaaa1'' 1 2
          [ex_row 1 ''v1'' ''aaaaaaa1'' ''r-aaaaaaa.zip'' 1 0] [''r-aaaaaaa.zip''])) = []
   \<and> cache (ex_state ''v1'' ''aaaaaaa1'' 1 2
          [ex_row 1 ''v1'' ''aaaaaaa1'' ''r-aaaaaaa.zip'' 1 0] [''r-aaaaaaa.zip'']) = empty_cache
   \<and> SyncAll ex_cfg [(ex_repo, ex_env ''aaaaaaa1'' ''v1'' 1)] ex_bump (Some ex_callback) ex_world =
       (ex_world1\<lparr>store := IncrementPackageListVersion 8 (store ex_world1),
          cache := \<lparr>cache_packages = Some [ex_info], cache_version = Some (1, 8),
                    cache_packageInfo = [''r'' \<mapsto> ex_info]\<rparr>\<rparr>, Synced)
   \<and> max_version (IncrementPackageListVersion 8 (store ex_world1)) = 1"
proof -
  have 1: "SyncAll ex_cfg [(ex_repo, ex_env ''aaaaaaa1'' ''v1'' 1), (ex_repo2, ex_down 1)]
      ex_bump (Some ex_callback) ex_world = (ex_world1, SyncErrors [(''s'', GitErr)])"
    by (simp add: SyncAll_def ex_run1 ex_run_down ex_repo2_Name)
  have 2: "SyncAll ex_cfg [(ex_repo2, ex_down 1), (ex_repo, ex_env ''aaaaaaa1'' ''v1'' 1)]
      ex_bump (Some ex_callback) ex_world = (ex_world1, SyncErrors [(''s'', GitErr)])"
    by (simp add: SyncAll_def ex_run1 ex_run_down ex_repo2_Name)
  have 3: "package_list_versions (store ex_world1) = []" "cache ex_world1 = empty_cache"
    by (simp_all add: ex_world1_def ex_state_def)
  have 4: "SyncAll ex_cfg [(ex_repo, ex_env ''aaaaaaa1'' ''v1'' 2), (ex_repo2, ex_down 2)]
            ex_bump (Some ex_callback) ex_world1 =
           (ex_state ''v1'' ''aaaaaaa1'' 1 2
             [ex_row 1 ''v1'' ''aaaaaaa1'' ''r-aaaaaaa.zip'' 1 0] [''r-aaaaaaa.zip''],
            SyncErrors [(''s'', GitErr)])"
    by (simp add: SyncAll_def ex_rerun1 ex_run_down ex_repo2_Name)
  have 5: "package_list_versions (store (ex_state ''v1'' ''aaaaaaa1'' 1 2
          [ex_row 1 ''v1'' ''aaaaaaa1'' ''r-aaaaaaa.zip'' 1 0] [''r-aaaaaaa.zip''])) = []"
    "cache (ex_state ''v1'' ''aaaaaaa1'' 1 2
          [ex_row 1 ''v1'' ''aaaaaaa1'' ''r-aaaaaaa.zip'' 1 0] [''r-aaaaaaa.zip'']) = empty_cache"
    by (simp_all add: ex_state_def)
  have 6: "SyncAll ex_cfg [(ex_repo, ex_env ''aaaaaaa1'' ''v1'' 1)] ex_bump (Some ex_callback) ex_world =
       (ex_world1\<lparr>store := IncrementPackageListVersion 8 (store ex_world1),
          cache := \<lparr>cache_packages = Some [ex_info], cache_version = Some (1, 8),
                    cache_packageInfo = [''r'' \<mapsto> ex_info]\<rparr>\<rparr>, Synced)"
    by (simp add: SyncAll_def ex_run1 ex_bump_def ex_published)
  have 7: "max_version (IncrementPackageListVersion 8 (store ex_world1)) = 1"
    by (simp add: max_version_Increment) (simp add: max_version_def ex_world1_def ex_state_def)
  from 1 2 3 4 5 6 7 show ?thesis by (intro conjI)
qed

section \<open>Reading the cache\<close>

text \<open>
  Claim C8 against the code. With no rebuild yet (the cache as \<open>NewAPI\<close> makes it, which
  is also what a first \<open>UpdateCache\<close> that cannot read the repositories leaves), the
  packages document and the version document answer "Cache not initialized", and the
  read of one package answers "package not found", also for a package the store holds.
\<close>

theorem getPackage_before_rebuild:
  "cache (NewAPI ex_cfg (ex_cache_env\<lparr>allrepos_err := True\<rparr>) ex_world1) = empty_cache
   \<and> GetRepoByName ''r'' (store ex_world1) \<noteq> None
   \<and> listPackages empty_cache = HttpError 500 ''Cache not initialized''
   \<and> getPackageListVersion empty_cache = HttpError 500 ''Cache not initialized''
   \<and> getPackageVersions ''r'' empty_cache = HttpError 404 ''package not found''"
  by (simp add: NewAPI_def UpdateCache_def ex_cache_env_def listPackages_def
        getPackageListVersion_def getPackageVersions_def empty_cache_def
        ex_world1_def ex_state_def GetRepoByName_def)


text \<open>After a rebuild that succeeds, a name that is not a repository of the store is
  not found, and the two documents are served.\<close>

lemma cache_repos_dom:
  "dom (snd (cache_repos cfg fails d rs acc)) \<subseteq> dom (snd acc) \<union> repo_Name ` set rs"
proof (induction rs arbitrary: acc)
  case Nil
  then show ?case by simp
next
  case (Cons a rs)
  obtain ps m where acc: "acc = (ps, m)" by (cases acc)
  show ?case
  proof (cases "fails (repo_ID a)")
    case True
    with acc Cons.IH [of "(ps, m)"] show ?thesis by auto
  next
    case False
    let ?i = "\<lparr>pi_Name = repo_Name a, pi_URL = repo_URL a,
               pi_Versions = map (to_Version cfg) (GetVersionsByRepoID (repo_ID a) 3 d)\<rparr>"
    from False acc Cons.IH [of "(ps @ [?i], m(repo_Name a \<mapsto> ?i))"]
    show ?thesis by (auto simp: Let_def)
  qed
qed

lemma set_GetAllRepos: "set (GetAllRepos d) = set (repos d)"
proof -
  have i: "\<And>r xs. set (insert_by_name r xs) = insert r (set xs)"
  proof -
    fix r xs show "set (insert_by_name r xs) = insert r (set xs)"
      by (induction xs) auto
  qed
  have "\<And>xs. set (foldr insert_by_name xs []) = set xs"
  proof -
    fix xs show "set (foldr insert_by_name xs []) = set xs"
      by (induction xs) (simp_all add: i)
  qed
  then show ?thesis by (simp add: GetAllRepos_def)
qed

lemma getPackage_unknown_after_rebuild:
  assumes u: "UpdateCache cfg env (w\<lparr>cache := empty_cache\<rparr>) = (w', None)"
    and n: "name \<noteq> []" "GetRepoByName name (store w) = None"
  shows "getPackageVersions name (cache w') = HttpError 404 ''package not found''"
    and "listPackages (cache w') \<noteq> HttpError 500 ''Cache not initialized''"
    and "getPackageListVersion (cache w') \<noteq> HttpError 500 ''Cache not initialized''"
proof -
  obtain ps m where cr: "cache_repos cfg (versions_err env) (store w) (GetAllRepos (store w))
                          ([], Map.empty) = (ps, m)"
    by (cases "cache_repos cfg (versions_err env) (store w) (GetAllRepos (store w)) ([], Map.empty)")
  from cache_repos_dom [of cfg "versions_err env" "store w" "GetAllRepos (store w)" "([], Map.empty)"] cr
  have "dom m \<subseteq> repo_Name ` set (repos (store w))"
    by (simp add: set_GetAllRepos)
  moreover from n(2) have "name \<notin> repo_Name ` set (repos (store w))"
    by (auto simp: GetRepoByName_def find_None_iff)
  ultimately have mn: "m name = None" by blast
  from u cr have c: "cache_packageInfo (cache w') = m" "cache_packages (cache w') = Some ps"
    "cache_version (cache w') \<noteq> None"
    by (auto simp: UpdateCache_def empty_cache_def Let_def
             split: if_splits prod.splits sum.splits)
  from c(1) mn n(1) show "getPackageVersions name (cache w') = HttpError 404 ''package not found''"
    by (simp add: getPackageVersions_def)
  from c(2) show "listPackages (cache w') \<noteq> HttpError 500 ''Cache not initialized''"
    by (simp add: listPackages_def)
  from c(3) show "getPackageListVersion (cache w') \<noteq> HttpError 500 ''Cache not initialized''"
    by (auto simp: getPackageListVersion_def split: option.splits)
qed

end
